theory Spec2Isabelle
  imports Main "HOL-Library.Word" "HOL-Library.AList"
begin

unbundle bit_operations_syntax

section \<open>Shared data: errors, JSON values, matches, checked contracts\<close>

text \<open>
  Every \<^verbatim>\<open>throw\<close> and every rejected promise of the TypeScript sources is a value of
  \<open>error\<close>. The constructor is the class of the thrown object, the string its message.
  \<open>Error\<close> is also used for what the external libraries (ethers, lib-sourcify, the
  storage fetchers) throw. \<open>SystemError\<close> is an error thrown by Node's \<^verbatim>\<open>fs\<close>; it
  carries the error code (\<^verbatim>\<open>EEXIST\<close>, \<^verbatim>\<open>EISDIR\<close>, \<^verbatim>\<open>ENAMETOOLONG\<close>, ...).
\<close>

datatype error =
    Error string
  | ValidationError string
  | BadRequestError string
  | NotFoundError string
  | PayloadTooLargeError string
  | ContractIsAlreadyBeingVerifiedError string string
  | TypeError string
  | AssertionError string
  | SystemError string

text \<open>
  \<open>error.message\<close>. The class ContractIsAlreadyBeingVerifiedError is
  outside the verified sources; its message is rendered from its two constructor arguments.
\<close>

fun error_message :: "error \<Rightarrow> string" where
  "error_message (Error m) = m"
| "error_message (ValidationError m) = m"
| "error_message (BadRequestError m) = m"
| "error_message (NotFoundError m) = m"
| "error_message (PayloadTooLargeError m) = m"
| "error_message (ContractIsAlreadyBeingVerifiedError c a) =
     ''already-verifying '' @ c @ '':'' @ a"
| "error_message (TypeError m) = m"
| "error_message (AssertionError m) = m"
| "error_message (SystemError code) = code"

text \<open>
  \<^verbatim>\<open>String(err)\<close>, which a template literal applies to an error: the name of the error,
  a colon and the message. The name of an error of Node's \<^verbatim>\<open>assert\<close> comes with its
  code; an error of \<^verbatim>\<open>fs\<close> is a plain \<^verbatim>\<open>Error\<close>; for the classes of the server, which
  lie outside the verified sources, the class name is used.
\<close>

fun error_toString :: "error \<Rightarrow> string" where
  "error_toString (Error m) = ''Error: '' @ m"
| "error_toString (ValidationError m) = ''ValidationError: '' @ m"
| "error_toString (BadRequestError m) = ''BadRequestError: '' @ m"
| "error_toString (NotFoundError m) = ''NotFoundError: '' @ m"
| "error_toString (PayloadTooLargeError m) = ''PayloadTooLargeError: '' @ m"
| "error_toString (ContractIsAlreadyBeingVerifiedError c a) =
     ''ContractIsAlreadyBeingVerifiedError: already-verifying '' @ c @ '':'' @ a"
| "error_toString (TypeError m) = ''TypeError: '' @ m"
| "error_toString (AssertionError m) = ''AssertionError [ERR_ASSERTION]: '' @ m"
| "error_toString (SystemError code) = ''Error: '' @ code"

datatype json =
    JNull
  | JBool bool
  | JNumber int
  | JString string
  | JArray "json list"
  | JObject "(string \<times> json) list"

text \<open>
  The match enum \<^verbatim>\<open>perfect | partial | extra-file-input-bug\<close>; \<^verbatim>\<open>null\<close> is \<open>None\<close>.
  \<open>StatusError\<close> is the literal \<^verbatim>\<open>"error"\<close> that the session reports for a contract
  without a match.
\<close>

datatype status = Perfect | Partial | ExtraFileInputBug | StatusError

fun status_text :: "status option \<Rightarrow> string" where
  "status_text None = ''null''"
| "status_text (Some Perfect) = ''perfect''"
| "status_text (Some Partial) = ''partial''"
| "status_text (Some ExtraFileInputBug) = ''extra-file-input-bug''"
| "status_text (Some StatusError) = ''error''"

record match =
  m_address :: string
  m_chainId :: string
  m_runtimeMatch :: "status option"
  m_creationMatch :: "status option"
  m_storageTimestamp :: "int option"
  m_message :: "string option"
  m_abiEncodedConstructorArguments :: "string option"
  m_creatorTxHash :: "string option"
  m_libraryMap :: "(string \<times> string) list option"
  m_immutableReferences :: "(string \<times> json) list option"

text \<open>The fields of lib-sourcify's CheckedContract that the server reads and writes.\<close>

record checkedContract =
  cc_name :: string
  cc_metadata :: json
  cc_metadataRaw :: string
  cc_solidity :: "(string \<times> string) list"
  cc_missing :: "(string \<times> json) list"
  cc_invalid :: "(string \<times> json) list"

text \<open>JavaScript truthiness of an optional string: defined and not empty.\<close>

fun truthy :: "string option \<Rightarrow> bool" where
  "truthy None = False"
| "truthy (Some s) = (s \<noteq> [])"

text \<open>
  Modelled from the spec: \<^verbatim>\<open>getMatchStatus\<close> of \<^verbatim>\<open>server/common\<close> lies outside
  the verified sources. The spec derives the status of a match, and from it the partition
  the match is stored into, from \<^verbatim>\<open>runtimeMatch || creationMatch\<close>, and lets a \<^verbatim>\<open>perfect\<close>
  creationMatch upgrade a \<^verbatim>\<open>partial\<close> runtimeMatch in reporting. Read together: the
  status is perfect when either field is perfect, else partial when either field is
  partial, else extra-file-input-bug when the runtime field is, else null.
\<close>

definition getMatchStatus :: "match \<Rightarrow> status option" where
  "getMatchStatus m =
     (if m_runtimeMatch m = Some Perfect \<or> m_creationMatch m = Some Perfect then Some Perfect
      else if m_runtimeMatch m = Some Partial \<or> m_creationMatch m = Some Partial
        then Some Partial
      else if m_runtimeMatch m = Some ExtraFileInputBug then Some ExtraFileInputBug
      else None)"

text \<open>
  Modelled from the spec: \<^verbatim>\<open>CheckedContract.isValid\<close> of lib-sourcify. A CheckedContract
  is valid iff \<open>missing\<close> and \<open>invalid\<close> are both empty; the second argument lets missing
  sources pass.
\<close>

definition isValid :: "checkedContract \<Rightarrow> bool \<Rightarrow> bool" where
  "isValid c ignoreMissing = ((cc_missing c = [] \<or> ignoreMissing) \<and> cc_invalid c = [])"

section \<open>RepositoryV1Service: the match store on the file system\<close>

text \<open>
  The repository tree is \<^verbatim>\<open>contracts/{full|partial}_match/{chainId}/{address}/...\<close> with
  \<^verbatim>\<open>manifest.json\<close> at the root. A contract directory is identified by its match quality,
  chain id and checksummed address, a file inside it by whether it lies under
  \<^verbatim>\<open>sources/\<close> and by its name. The chain id, the checksummed address and the file name
  are taken as opaque path components: \<^verbatim>\<open>Path.join\<close> is not modelled, so two different
  triples are two different directories, and a file name stays inside its contract
  directory. A contract directory is the list of its files in the order of their
  creation. Whether the file system carries out \<^verbatim>\<open>mkdirSync\<close> and \<^verbatim>\<open>writeFileSync\<close> or
  throws is decided by the environment below; \<^verbatim>\<open>rmdirSync\<close> of a directory that exists
  is carried out.
\<close>

datatype matchQuality = Full | PartialQuality

record pathConfig =
  p_matchQuality :: matchQuality
  p_chainId :: string
  p_address :: string
  p_source :: bool
  p_fileName :: string

type_synonym contractDir = "matchQuality \<times> string \<times> string"

datatype location =
    ContractDir contractDir
  | ContractFile contractDir bool string
  | ManifestFile

text \<open>
  What a file holds: a string written as it is, or the string \<^verbatim>\<open>JSON.stringify(j)\<close> of a
  JSON value \<open>j\<close>, kept as that value.
\<close>

datatype content = Plain string | Stringified json

record repoFile =
  f_content :: content
  f_birthtime :: int

text \<open>
  The calls of Node's \<^verbatim>\<open>fs\<close> that change the disk, in the order they were made, a
  write with what it wrote.
  \<open>RenameSync\<close> belongs to the interface; RepositoryV1Service never calls it.
\<close>

datatype fs_op =
    MkdirSync contractDir
  | WriteFileSync location content
  | RmdirSync contractDir
  | RenameSync location location

record repository =
  r_dirs :: "contractDir \<rightharpoonup> ((bool \<times> string) \<times> repoFile) list"
  r_manifest :: "content option"
  r_ops :: "fs_op list"
  r_clockReads :: nat

text \<open>
  The environment of the service: ethers' \<^verbatim>\<open>getAddress\<close> (\<open>None\<close> when it throws on a
  malformed address), Node's \<^verbatim>\<open>path.normalize\<close>, \<^verbatim>\<open>path.parse\<close> and \<^verbatim>\<open>path.format\<close>, and
  the wall clock: \<open>e_clock env n\<close> is the epoch time in milliseconds at the \<open>n\<close>-th
  reading, by \<^verbatim>\<open>new Date()\<close> or by the file system for a birthtime.

  The file system is part of the environment as far as it can refuse a call.
  \<open>e_mkdirRefused env r loc = Some (code, made)\<close> says that on the disk \<open>r\<close> the call
  \<^verbatim>\<open>fs.mkdirSync(Path.dirname(loc), {recursive: true})\<close> throws the system error \<open>code\<close>,
  \<open>made\<close> telling whether the contract directory had been created by then (a recursive
  mkdir creates the directories from the top and can fail further down);
  \<open>e_writeRefused env r loc = Some code\<close> says that \<^verbatim>\<open>fs.writeFileSync(loc, ...)\<close> throws
  \<open>code\<close> and writes nothing. \<open>None\<close> is a call that is carried out. Nothing is assumed
  about when a call is refused.
\<close>

record parsedPath =
  pp_root :: string
  pp_dir :: string
  pp_base :: string
  pp_ext :: string
  pp_name :: string

record env =
  e_getAddress :: "string \<Rightarrow> string option"
  e_normalize :: "string \<Rightarrow> string"
  e_parse :: "string \<Rightarrow> parsedPath"
  e_format :: "parsedPath \<Rightarrow> string"
  e_clock :: "nat \<Rightarrow> int"
  e_mkdirRefused :: "repository \<Rightarrow> location \<Rightarrow> (string \<times> bool) option"
  e_writeRefused :: "repository \<Rightarrow> location \<Rightarrow> string option"

definition readClock :: "env \<Rightarrow> repository \<Rightarrow> int \<times> repository" where
  "readClock env r = (e_clock env (r_clockReads r), r\<lparr>r_clockReads := Suc (r_clockReads r)\<rparr>)"

definition generateAbsoluteFilePath :: "env \<Rightarrow> pathConfig \<Rightarrow> error + location" where
  "generateAbsoluteFilePath env p =
     (case e_getAddress env (p_address p) of
        None \<Rightarrow> Inl (Error ''invalid address'')
      | Some a \<Rightarrow>
          (if \<not> p_source p \<and> p_fileName p = []
           then Inr (ContractDir (p_matchQuality p, p_chainId p, a))
           else Inr (ContractFile (p_matchQuality p, p_chainId p, a) (p_source p) (p_fileName p))))"

definition existsSync :: "repository \<Rightarrow> location \<Rightarrow> bool" where
  "existsSync r loc =
     (case loc of
        ContractDir d \<Rightarrow> r_dirs r d \<noteq> None
      | ContractFile d s n \<Rightarrow>
          (case r_dirs r d of None \<Rightarrow> False | Some fs \<Rightarrow> map_of fs (s, n) \<noteq> None)
      | ManifestFile \<Rightarrow> r_manifest r \<noteq> None)"

definition stat :: "repository \<Rightarrow> location \<Rightarrow> repoFile option" where
  "stat r loc =
     (case loc of
        ContractFile d s n \<Rightarrow> (case r_dirs r d of None \<Rightarrow> None | Some fs \<Rightarrow> map_of fs (s, n))
      | _ \<Rightarrow> None)"

text \<open>
  \<^verbatim>\<open>fs.mkdirSync(Path.dirname(absolutePath), {recursive: true})\<close> for a file of the contract
  directory \<open>d\<close>: the contract directory exists afterwards, unless the call was refused
  before it was created.
\<close>

definition mkdirSync :: "env \<Rightarrow> contractDir \<Rightarrow> bool \<Rightarrow> string \<Rightarrow> repository \<Rightarrow>
    error option \<times> repository" where
  "mkdirSync env d s n r =
     (let made = r\<lparr>r_dirs := (case r_dirs r d of None \<Rightarrow> (r_dirs r)(d \<mapsto> []) | Some _ \<Rightarrow> r_dirs r),
                    r_ops := r_ops r @ [MkdirSync d]\<rparr>
      in case e_mkdirRefused env r (ContractFile d s n) of
           None \<Rightarrow> (None, made)
         | Some (code, True) \<Rightarrow> (Some (SystemError code), made)
         | Some (code, False) \<Rightarrow> (Some (SystemError code), r))"

text \<open>
  \<^verbatim>\<open>fs.writeFileSync(absolutePath, content)\<close>. A new file gets the time of the write as its
  birthtime, a file that is overwritten keeps its own.
\<close>

definition writeFileSync :: "env \<Rightarrow> contractDir \<Rightarrow> bool \<Rightarrow> string \<Rightarrow> content \<Rightarrow>
    repository \<Rightarrow> error option \<times> repository" where
  "writeFileSync env d s n c r =
     (case e_writeRefused env r (ContractFile d s n) of
        Some code \<Rightarrow> (Some (SystemError code), r)
      | None \<Rightarrow>
          (case readClock env r of (now, r1) \<Rightarrow>
             (let fs = (case r_dirs r1 d of None \<Rightarrow> [] | Some fs \<Rightarrow> fs);
                  born = (case map_of fs (s, n) of None \<Rightarrow> now | Some old \<Rightarrow> f_birthtime old)
              in (None,
                  r1\<lparr>r_dirs := (r_dirs r1)
                         (d \<mapsto> AList.update (s, n) \<lparr>f_content = c, f_birthtime = born\<rparr> fs),
                     r_ops := r_ops r1 @ [WriteFileSync (ContractFile d s n) c]\<rparr>))))"

definition updateRepositoryTag :: "env \<Rightarrow> repository \<Rightarrow> error option \<times> repository" where
  "updateRepositoryTag env r =
     (case readClock env r of (timestamp, r1) \<Rightarrow>
        (let tag = Stringified (JObject [(''timestamp'', JNumber timestamp)])
         in case e_writeRefused env r1 ManifestFile of
              Some code \<Rightarrow> (Some (SystemError code), r1)
            | None \<Rightarrow>
                (None, r1\<lparr>r_manifest := Some tag,
                          r_ops := r_ops r1 @ [WriteFileSync ManifestFile tag]\<rparr>)))"

text \<open>
  Sequencing of two steps that can throw: the second runs on the repository the first
  left, unless the first threw.
\<close>

definition andThen :: "error option \<times> repository \<Rightarrow> (repository \<Rightarrow> error option \<times> repository) \<Rightarrow>
    error option \<times> repository" where
  "andThen x f = (case x of (Some e, r) \<Rightarrow> (Some e, r) | (None, r) \<Rightarrow> f r)"

text \<open>
  \<open>save\<close> with a PathConfig, the only way this service calls it: the directory of the
  file is created, the file is written, the repository tag is updated. A call that
  throws ends \<open>save\<close> with what the calls before it have done. The service never saves
  to the path of a contract directory itself (an empty file name outside \<^verbatim>\<open>sources/\<close>);
  the model lets that write fail and change nothing.
\<close>

definition save :: "env \<Rightarrow> pathConfig \<Rightarrow> content \<Rightarrow> repository \<Rightarrow> error option \<times> repository" where
  "save env p c r =
     (case generateAbsoluteFilePath env p of
        Inl e \<Rightarrow> (Some e, r)
      | Inr (ContractFile d s n) \<Rightarrow>
          andThen (mkdirSync env d s n r) (\<lambda>r.
          andThen (writeFileSync env d s n c r) (\<lambda>r.
          updateRepositoryTag env r))
      | Inr _ \<Rightarrow> (Some (SystemError ''EISDIR''), r))"

definition deletePartialIfExists :: "env \<Rightarrow> string \<Rightarrow> string \<Rightarrow> repository \<Rightarrow>
    error option \<times> repository" where
  "deletePartialIfExists env chainId address r =
     (case generateAbsoluteFilePath env
             \<lparr>p_matchQuality = PartialQuality, p_chainId = chainId, p_address = address,
              p_source = False, p_fileName = []\<rparr> of
        Inl e \<Rightarrow> (Some e, r)
      | Inr (ContractDir d) \<Rightarrow>
          (if existsSync r (ContractDir d)
           then (None, r\<lparr>r_dirs := (r_dirs r)(d := None), r_ops := r_ops r @ [RmdirSync d]\<rparr>)
           else (None, r))
      | Inr _ \<Rightarrow> (None, r))"

definition statusToMatchQuality :: "status option \<Rightarrow> error + matchQuality" where
  "statusToMatchQuality st =
     (if st = Some Perfect then Inr Full
      else if st = Some Partial then Inr PartialQuality
      else Inl (Error (''Invalid match status: '' @ status_text st)))"


text \<open>
  \<^verbatim>\<open>s.split("/")\<close> and \<^verbatim>\<open>xs.join(sep)\<close> of JavaScript, and \<^verbatim>\<open>s.replace(/\\n/g, "")\<close>, which
  removes every backslash that is followed by the letter n, together with that letter.
\<close>

fun split_sep :: "string \<Rightarrow> string list" where
  "split_sep [] = [[]]"
| "split_sep (x # xs) =
     (if x = CHR ''/'' then [] # split_sep xs
      else (case split_sep xs of [] \<Rightarrow> [[x]] | w # ws \<Rightarrow> (x # w) # ws))"

fun join_with :: "string \<Rightarrow> string list \<Rightarrow> string" where
  "join_with sep [] = []"
| "join_with sep [w] = w"
| "join_with sep (w # ws) = w @ sep @ join_with sep ws"

fun remove_backslash_n :: "string \<Rightarrow> string" where
  "remove_backslash_n (a # b # cs) =
     (if a = CHR 0x5C \<and> b = CHR ''n'' then remove_backslash_n cs
      else a # remove_backslash_n (b # cs))"
| "remove_backslash_n cs = cs"

definition sanitizePath :: "env \<Rightarrow> string \<Rightarrow> string \<times> string" where
  "sanitizePath env originalPath =
     (let sanitizedPath = remove_backslash_n (e_normalize env originalPath);
          parsed = e_parse env sanitizedPath;
          sanitizedDir = join_with ''/'' (filter (\<lambda>segment. segment \<noteq> ''..'') (split_sep (pp_dir parsed)));
          parsed' = (if pp_root parsed \<noteq> []
                     then parsed\<lparr>pp_dir := drop (length (pp_root parsed)) sanitizedDir,
                                 pp_root := []\<rparr>
                     else parsed\<lparr>pp_dir := sanitizedDir\<rparr>)
      in (e_format env parsed', originalPath))"

text \<open>
  The \<^verbatim>\<open>for ... in sources\<close> loop of \<open>storeSources\<close>; the path translation collected
  so far is threaded through.
\<close>

fun storeSources_loop :: "env \<Rightarrow> matchQuality \<Rightarrow> string \<Rightarrow> string \<Rightarrow> (string \<times> string) list \<Rightarrow>
    (string \<times> string) list \<Rightarrow> repository \<Rightarrow> error option \<times> (string \<times> string) list \<times> repository" where
  "storeSources_loop env q chainId address [] pathTranslation r = (None, pathTranslation, r)"
| "storeSources_loop env q chainId address ((sourcePath, text) # rest) pathTranslation r =
     (case sanitizePath env sourcePath of (sanitizedPath, originalPath) \<Rightarrow>
        (let pathTranslation' =
               (if sanitizedPath \<noteq> originalPath
                then AList.update originalPath sanitizedPath pathTranslation
                else pathTranslation)
         in case save env \<lparr>p_matchQuality = q, p_chainId = chainId, p_address = address,
                            p_source = True, p_fileName = sanitizedPath\<rparr> (Plain text) r of
              (Some e, r') \<Rightarrow> (Some e, pathTranslation', r')
            | (None, r') \<Rightarrow> storeSources_loop env q chainId address rest pathTranslation' r'))"

definition storeSources :: "env \<Rightarrow> matchQuality \<Rightarrow> string \<Rightarrow> string \<Rightarrow> (string \<times> string) list \<Rightarrow>
    repository \<Rightarrow> error option \<times> repository" where
  "storeSources env q chainId address sources r =
     (case storeSources_loop env q chainId address sources [] r of
        (Some e, _, r') \<Rightarrow> (Some e, r')
      | (None, pathTranslation, r') \<Rightarrow>
          (if pathTranslation = [] then (None, r')
           else save env \<lparr>p_matchQuality = q, p_chainId = chainId, p_address = address,
                           p_source = False, p_fileName = ''path-translation.json''\<rparr>
                  (Stringified (JObject (map (\<lambda>(k, v). (k, JString v)) pathTranslation))) r'))"

definition storeJSON :: "env \<Rightarrow> matchQuality \<Rightarrow> string \<Rightarrow> string \<Rightarrow> string \<Rightarrow> json \<Rightarrow>
    repository \<Rightarrow> error option \<times> repository" where
  "storeJSON env q chainId address fileName contentJSON r =
     save env \<lparr>p_matchQuality = q, p_chainId = chainId, p_address = address,
               p_source = False, p_fileName = fileName\<rparr> (Stringified contentJSON) r"

definition storeTxt :: "env \<Rightarrow> matchQuality \<Rightarrow> string \<Rightarrow> string \<Rightarrow> string \<Rightarrow> string \<Rightarrow>
    repository \<Rightarrow> error option \<times> repository" where
  "storeTxt env q chainId address fileName text r =
     save env \<lparr>p_matchQuality = q, p_chainId = chainId, p_address = address,
               p_source = False, p_fileName = fileName\<rparr> (Plain text) r"

text \<open>
  The artifacts that \<open>storeMatch\<close> writes once the match quality is known, in the order
  of the source: sources, metadata, constructor arguments, creator transaction hash,
  library map, immutable references.
\<close>

definition storeArtifacts :: "env \<Rightarrow> matchQuality \<Rightarrow> checkedContract \<Rightarrow> match \<Rightarrow> repository \<Rightarrow>
    error option \<times> repository" where
  "storeArtifacts env q contract m r =
     andThen (storeSources env q (m_chainId m) (m_address m) (cc_solidity contract) r) (\<lambda>r.
     andThen (storeJSON env q (m_chainId m) (m_address m) ''metadata.json''
                (cc_metadata contract) r) (\<lambda>r.
     andThen (case m_abiEncodedConstructorArguments m of
                Some args \<Rightarrow>
                  if args \<noteq> []
                  then storeTxt env q (m_chainId m) (m_address m) ''constructor-args.txt'' args r
                  else (None, r)
              | None \<Rightarrow> (None, r)) (\<lambda>r.
     andThen (case m_creatorTxHash m of
                Some h \<Rightarrow>
                  if h \<noteq> []
                  then storeTxt env q (m_chainId m) (m_address m) ''creator-tx-hash.txt'' h r
                  else (None, r)
              | None \<Rightarrow> (None, r)) (\<lambda>r.
     andThen (case m_libraryMap m of
                Some l \<Rightarrow>
                  if l \<noteq> []
                  then storeJSON env q (m_chainId m) (m_address m) ''library-map.json''
                         (JObject (map (\<lambda>(k, v). (k, JString v)) l)) r
                  else (None, r)
              | None \<Rightarrow> (None, r)) (\<lambda>r.
     (case m_immutableReferences m of
        Some i \<Rightarrow>
          if i \<noteq> []
          then storeJSON env q (m_chainId m) (m_address m) ''immutable-references.json''
                 (JObject i) r
          else (None, r)
      | None \<Rightarrow> (None, r)))))))"

text \<open>
  \<open>storeMatch\<close> resolves to nothing (\<open>Inr None\<close>), resolves to the match it was given
  (\<open>Inr (Some m)\<close>) or rejects (\<open>Inl\<close>); the repository it leaves is returned in every
  case.
\<close>

definition storeMatch :: "env \<Rightarrow> checkedContract \<Rightarrow> match \<Rightarrow> repository \<Rightarrow>
    (error + match option) \<times> repository" where
  "storeMatch env contract m r =
     (if m_address m \<noteq> [] \<and>
         (m_runtimeMatch m = Some Perfect \<or> m_runtimeMatch m = Some Partial \<or>
          m_creationMatch m = Some Perfect \<or> m_creationMatch m = Some Partial)
      then
        (case (if m_runtimeMatch m = Some Perfect \<or> m_creationMatch m = Some Perfect
               then deletePartialIfExists env (m_chainId m) (m_address m) r
               else (None, r)) of
           (Some e, r1) \<Rightarrow> (Inl e, r1)
         | (None, r1) \<Rightarrow>
             (case statusToMatchQuality (getMatchStatus m) of
                Inl e \<Rightarrow> (Inl e, r1)
              | Inr matchQuality \<Rightarrow>
                  (case storeArtifacts env matchQuality contract m r1 of
                     (Some e, r2) \<Rightarrow> (Inl e, r2)
                   | (None, r2) \<Rightarrow> (Inr None, r2))))
      else if m_runtimeMatch m = Some ExtraFileInputBug then (Inr (Some m), r)
      else (Inl (Error (''Unknown match status: '' @ status_text (m_runtimeMatch m))), r))"

text \<open>
  The lookups. \<open>checkByChainAndAddress\<close> stats \<^verbatim>\<open>metadata.json\<close> of the full match only;
  \<open>checkAllByChainAndAddress\<close> tries the full match and then the partial match, through
  \<open>fetchFromStorage\<close>. The path is computed before the \<^verbatim>\<open>try\<close>, so an address that
  \<^verbatim>\<open>getAddress\<close> refuses rejects the lookup.
\<close>

definition foundMatch :: "string \<Rightarrow> string \<Rightarrow> status \<Rightarrow> int \<Rightarrow> match" where
  "foundMatch address chainId st time =
     \<lparr>m_address = address, m_chainId = chainId, m_runtimeMatch = Some st,
      m_creationMatch = None, m_storageTimestamp = Some time, m_message = None,
      m_abiEncodedConstructorArguments = None, m_creatorTxHash = None,
      m_libraryMap = None, m_immutableReferences = None\<rparr>"

definition metadataPath :: "matchQuality \<Rightarrow> string \<Rightarrow> string \<Rightarrow> pathConfig" where
  "metadataPath q chainId address =
     \<lparr>p_matchQuality = q, p_chainId = chainId, p_address = address,
      p_source = False, p_fileName = ''metadata.json''\<rparr>"

definition checkByChainAndAddress :: "env \<Rightarrow> string \<Rightarrow> string \<Rightarrow> repository \<Rightarrow>
    error + match list" where
  "checkByChainAndAddress env address chainId r =
     (case generateAbsoluteFilePath env (metadataPath Full chainId address) of
        Inl e \<Rightarrow> Inl e
      | Inr contractPath \<Rightarrow>
          (case stat r contractPath of
             Some f \<Rightarrow> Inr [foundMatch address chainId Perfect (f_birthtime f)]
           | None \<Rightarrow> Inr []))"

definition fetchFromStorage :: "repository \<Rightarrow> location \<Rightarrow> location \<Rightarrow> error + (int \<times> status)" where
  "fetchFromStorage r fullContractPath partialContractPath =
     (case stat r fullContractPath of
        Some f \<Rightarrow> Inr (f_birthtime f, Perfect)
      | None \<Rightarrow>
          (case stat r partialContractPath of
             Some f \<Rightarrow> Inr (f_birthtime f, Partial)
           | None \<Rightarrow> Inl (Error ''Path not found'')))"

definition checkAllByChainAndAddress :: "env \<Rightarrow> string \<Rightarrow> string \<Rightarrow> repository \<Rightarrow>
    error + match list" where
  "checkAllByChainAndAddress env address chainId r =
     (case generateAbsoluteFilePath env (metadataPath Full chainId address) of
        Inl e \<Rightarrow> Inl e
      | Inr fullContractPath \<Rightarrow>
          (case generateAbsoluteFilePath env (metadataPath PartialQuality chainId address) of
             Inl e \<Rightarrow> Inl e
           | Inr partialContractPath \<Rightarrow>
               (case fetchFromStorage r fullContractPath partialContractPath of
                  Inr (time, st) \<Rightarrow> Inr [foundMatch address chainId st time]
                | Inl _ \<Rightarrow> Inr [])))"


section \<open>VerificationService: one verification per chain and address\<close>

text \<open>
  The state of the server process: the map \<open>activeVerificationsByChainIdAddress\<close> of
  the verification service and the repository of the storage service. One call is
  modelled from its start to its end; what the awaited external calls of that one
  invocation produce is given by an oracle: \<open>o_creatorTx\<close> is the outcome of
  \<^verbatim>\<open>getCreatorTx\<close> (\<open>Inl\<close> when its promise rejects, \<open>Inr None\<close> for \<^verbatim>\<open>null\<close>) and
  \<open>o_verify\<close> the outcome of lib-sourcify's \<^verbatim>\<open>verifyDeployed\<close>. Both functions lie
  outside the verified sources.

  Modelled from the spec: the storage service behind \<^verbatim>\<open>services.storage\<close>
  (\<^verbatim>\<open>services/StorageService.ts\<close>) lies outside the verified sources as well. It is the
  match store of the spec, the repository on the file system: its
  \<open>checkByChainAndAddress\<close> and \<open>storeMatch\<close> are those of RepositoryV1Service above.
\<close>

record server =
  s_active :: "string \<rightharpoonup> bool"
  s_repo :: repository

record vd_oracle =
  o_creatorTx :: "error + string option"
  o_verify :: "error + match"

definition activeKey :: "string \<Rightarrow> string \<Rightarrow> string" where
  "activeKey chainId address = chainId @ '':'' @ address"

definition throwIfContractIsAlreadyBeingVerified :: "server \<Rightarrow> string \<Rightarrow> string \<Rightarrow> error option" where
  "throwIfContractIsAlreadyBeingVerified s chainId address =
     (if s_active s (activeKey chainId address) \<noteq> None
      then Some (ContractIsAlreadyBeingVerifiedError chainId address)
      else None)"

definition verifyDeployed :: "vd_oracle \<Rightarrow> string \<Rightarrow> string \<Rightarrow> string option \<Rightarrow> server \<Rightarrow>
    (error + match) \<times> server" where
  "verifyDeployed orc chainId address creatorTxHash s =
     (case throwIfContractIsAlreadyBeingVerified s chainId address of
        Some e \<Rightarrow> (Inl e, s)
      | None \<Rightarrow>
          (let s1 = s\<lparr>s_active := (s_active s)(activeKey chainId address \<mapsto> True)\<rparr>
           in case (if truthy creatorTxHash then Inr creatorTxHash else o_creatorTx orc) of
                Inl e \<Rightarrow> (Inl e, s1)
              | Inr foundCreatorTxHash \<Rightarrow>
                  (case o_verify orc of
                     Inr res \<Rightarrow>
                       (Inr res, s1\<lparr>s_active := (s_active s1)(activeKey chainId address := None)\<rparr>)
                   | Inl e \<Rightarrow>
                       (Inl e, s1\<lparr>s_active := (s_active s1)(activeKey chainId address := None)\<rparr>))))"

section \<open>The stateless verify handler\<close>

record pathBuffer =
  pb_path :: string
  pb_buffer :: string

text \<open>
  The request as the handler reads it; \<open>q_files\<close> is what \<open>extractFiles(req)\<close> returns
  (\<open>None\<close> for \<^verbatim>\<open>undefined\<close>). The oracle holds the outcomes of the library calls of one
  request: \<^verbatim>\<open>checkFiles\<close> (its error message when it throws), the first verification,
  \<^verbatim>\<open>useAllSources\<close> and the second verification.
\<close>

record legacyVerifyRequest =
  q_address :: string
  q_chain :: string
  q_chosenContract :: "nat option"
  q_creatorTxHash :: "string option"
  q_files :: "pathBuffer list option"

record legacy_oracle =
  lo_checkFiles :: "string + checkedContract list"
  lo_first :: vd_oracle
  lo_useAllSources :: "error + checkedContract"
  lo_second :: vd_oracle

text \<open>
  What the handler does with the response: \<open>SendResult m\<close> is
  \<^verbatim>\<open>res.send({result: [getResponseMatchFromMatch(m)]})\<close>, \<open>SendChoose\<close> the 400 answer that
  lists the contracts to choose from, \<open>SendInternalServerError\<close> the 500 answer with
  \<^verbatim>\<open>{error: error.message}\<close>, and \<open>Thrown\<close> an error that leaves the handler.
\<close>

datatype response =
    SendResult match
  | SendChoose "string list"
  | SendInternalServerError string
  | Thrown error

definition stringifyInvalidAndMissing :: "checkedContract \<Rightarrow> string" where
  "stringifyInvalidAndMissing contract =
     cc_name contract @ '' ('' @
     join_with '', '' (map fst (cc_invalid contract) @ map fst (cc_missing contract)) @ '')''"

definition extraFileMessage :: string where
  "extraFileMessage =
     ''It seems your contract's metadata hashes match but not the bytecodes. '' @
     ''You should add all the files input to the compiler during compilation and remove all others. '' @
     ''See the issue for more information: https://github.com/ethereum/sourcify/issues/618''"

text \<open>
  The body of the \<^verbatim>\<open>try\<close> block of the handler, for the chosen contract. With no contract
  at the chosen index the library is handed \<^verbatim>\<open>undefined\<close> and throws a TypeError.
\<close>

definition legacyVerify_try :: "env \<Rightarrow> legacy_oracle \<Rightarrow> legacyVerifyRequest \<Rightarrow>
    checkedContract option \<Rightarrow> server \<Rightarrow> (error + response) \<times> server" where
  "legacyVerify_try env orc req chosen s =
     (case chosen of
        None \<Rightarrow>
          (case verifyDeployed ((lo_first orc)\<lparr>o_verify := Inl (TypeError ''undefined contract'')\<rparr>)
                  (q_chain req) (q_address req) (q_creatorTxHash req) s of
             (Inl e, s1) \<Rightarrow> (Inl e, s1)
           | (Inr m, s1) \<Rightarrow> (Inl (TypeError ''undefined contract''), s1))
      | Some contract \<Rightarrow>
          (case verifyDeployed (lo_first orc) (q_chain req) (q_address req)
                  (q_creatorTxHash req) s of
             (Inl e, s1) \<Rightarrow> (Inl e, s1)
           | (Inr m, s1) \<Rightarrow>
               (let finish = (\<lambda>s2.
                      if m_runtimeMatch m \<noteq> None \<or> m_creationMatch m \<noteq> None
                      then (case storeMatch env contract m (s_repo s2) of
                              (Inl e, r) \<Rightarrow> (Inl e, s2\<lparr>s_repo := r\<rparr>)
                            | (Inr _, r) \<Rightarrow> (Inr (SendResult m), s2\<lparr>s_repo := r\<rparr>))
                      else (Inr (SendResult m), s2))
                in if m_runtimeMatch m = Some ExtraFileInputBug
                   then (case lo_useAllSources orc of
                           Inl e \<Rightarrow> (Inl e, s1)
                         | Inr contractWithAllSources \<Rightarrow>
                             (case verifyDeployed (lo_second orc) (q_chain req) (q_address req)
                                     (q_creatorTxHash req) s1 of
                                (Inl e, s2) \<Rightarrow> (Inl e, s2)
                              | (Inr tempMatch, s2) \<Rightarrow>
                                  (if m_runtimeMatch tempMatch = Some Perfect \<or>
                                      m_creationMatch tempMatch = Some Perfect
                                   then (case storeMatch env contract tempMatch (s_repo s2) of
                                           (Inl e, r) \<Rightarrow> (Inl e, s2\<lparr>s_repo := r\<rparr>)
                                         | (Inr _, r) \<Rightarrow>
                                             (Inr (SendResult tempMatch), s2\<lparr>s_repo := r\<rparr>))
                                   else if m_runtimeMatch tempMatch = Some ExtraFileInputBug
                                   then (Inl (ValidationError extraFileMessage), s2)
                                   else finish s2)))
                   else finish s1)))"

definition legacyVerifyEndpoint :: "env \<Rightarrow> legacy_oracle \<Rightarrow> legacyVerifyRequest \<Rightarrow> server \<Rightarrow>
    response \<times> server" where
  "legacyVerifyEndpoint env orc req s =
     (case checkByChainAndAddress env (q_address req) (q_chain req) (s_repo s) of
        Inl e \<Rightarrow> (Thrown e, s)
      | Inr (found # _) \<Rightarrow> (SendResult found, s)
      | Inr [] \<Rightarrow>
          (case q_files req of
             None \<Rightarrow>
               (Thrown (NotFoundError
                  ''Couldn't extract files from the request. Please make sure you have added files''), s)
           | Some inputFiles \<Rightarrow>
               (case lo_checkFiles orc of
                  Inl msg \<Rightarrow> (Thrown (BadRequestError msg), s)
                | Inr checkedContracts \<Rightarrow>
                    (let errors = map stringifyInvalidAndMissing
                                    (filter (\<lambda>contract. \<not> isValid contract True) checkedContracts);
                         chosenIsSet = (case q_chosenContract req of
                                          None \<Rightarrow> False | Some n \<Rightarrow> n \<noteq> 0)
                     in if errors \<noteq> []
                        then (Thrown (BadRequestError
                                (''Invalid or missing sources in:'' @ [CHR 0x0A] @
                                 join_with [CHR 0x0A] errors)), s)
                        else if length checkedContracts \<noteq> 1 \<and> \<not> chosenIsSet
                        then (SendChoose (map cc_name checkedContracts), s)
                        else
                          (let n = (case q_chosenContract req of None \<Rightarrow> 0 | Some n \<Rightarrow> n);
                               chosen = (if n < length checkedContracts
                                         then Some (checkedContracts ! n) else None)
                           in case legacyVerify_try env orc req chosen s of
                                (Inr resp, s') \<Rightarrow> (resp, s')
                              | (Inl e, s') \<Rightarrow>
                                  (SendInternalServerError (error_message e), s'))))))"


section \<open>SHA-1 and the session ids\<close>

text \<open>
  \<^verbatim>\<open>createHash("sha1").update(s).digest("hex")\<close> of Node's crypto module: SHA-1 as in
  FIPS 180-4 over the bytes of the string, printed as 40 lowercase hexadecimal digits.
  A string is the list of its UTF-8 bytes.
\<close>

type_synonym u32 = "32 word"

definition rotl32 :: "nat \<Rightarrow> u32 \<Rightarrow> u32" where
  "rotl32 n w = (push_bit n w) OR (drop_bit (32 - n) w)"

definition sha1_pad :: "nat list \<Rightarrow> nat list" where
  "sha1_pad bs =
     (let l = length bs;
          k = (119 - l mod 64) mod 64;
          bits = 8 * l
      in bs @ [128] @ replicate k 0 @
         [(bits div 2 ^ 56) mod 256, (bits div 2 ^ 48) mod 256,
          (bits div 2 ^ 40) mod 256, (bits div 2 ^ 32) mod 256,
          (bits div 2 ^ 24) mod 256, (bits div 2 ^ 16) mod 256,
          (bits div 2 ^ 8) mod 256, bits mod 256])"

fun words_of :: "nat list \<Rightarrow> u32 list" where
  "words_of (a # b # c # d # bs) =
     word_of_nat (((a * 256 + b) * 256 + c) * 256 + d) # words_of bs"
| "words_of _ = []"

text \<open>
  The message schedule: \<open>win\<close> is the window of the last 16 words, oldest first; after
  \<open>n\<close> steps the words that left the window and the window itself are the schedule.
\<close>

fun expand :: "nat \<Rightarrow> u32 list \<Rightarrow> u32 list" where
  "expand 0 win = win"
| "expand (Suc n) win =
     hd win # expand n (tl win @ [rotl32 1 (win ! 13 XOR win ! 8 XOR win ! 2 XOR win ! 0)])"

definition sha1_f :: "nat \<Rightarrow> u32 \<Rightarrow> u32 \<Rightarrow> u32 \<Rightarrow> u32" where
  "sha1_f t b c d =
     (if t < 20 then (b AND c) OR (NOT b AND d)
      else if t < 40 then b XOR c XOR d
      else if t < 60 then (b AND c) OR (b AND d) OR (c AND d)
      else b XOR c XOR d)"

definition sha1_k :: "nat \<Rightarrow> u32" where
  "sha1_k t =
     (if t < 20 then 0x5A827999 else if t < 40 then 0x6ED9EBA1
      else if t < 60 then 0x8F1BBCDC else 0xCA62C1D6)"

type_synonym sha1_state = "u32 \<times> u32 \<times> u32 \<times> u32 \<times> u32"

fun rounds :: "nat \<Rightarrow> u32 list \<Rightarrow> sha1_state \<Rightarrow> sha1_state" where
  "rounds t [] h = h"
| "rounds t (w # ws) (a, b, c, d, e) =
     rounds (t + 1) ws
       (rotl32 5 a + sha1_f t b c d + e + sha1_k t + w, a, rotl32 30 b, c, d)"

definition sha1_block :: "sha1_state \<Rightarrow> u32 list \<Rightarrow> sha1_state" where
  "sha1_block h ws =
     (case h of (h0, h1, h2, h3, h4) \<Rightarrow>
        (case rounds 0 (expand 64 ws) h of (a, b, c, d, e) \<Rightarrow>
           (h0 + a, h1 + b, h2 + c, h3 + d, h4 + e)))"

fun sha1_blocks :: "nat \<Rightarrow> sha1_state \<Rightarrow> u32 list \<Rightarrow> sha1_state" where
  "sha1_blocks 0 h ws = h"
| "sha1_blocks (Suc n) h ws = sha1_blocks n (sha1_block h (take 16 ws)) (drop 16 ws)"

definition hex_digit :: "nat \<Rightarrow> char" where
  "hex_digit n = ''0123456789abcdef'' ! (n mod 16)"

definition hex32 :: "u32 \<Rightarrow> string" where
  "hex32 w = map (\<lambda>i. hex_digit (unat (drop_bit i w))) [28, 24, 20, 16, 12, 8, 4, 0]"

definition sha1_hex :: "string \<Rightarrow> string" where
  "sha1_hex s =
     (let ws = words_of (sha1_pad (map of_char s))
      in case sha1_blocks (length ws div 16)
                (0x67452301, 0xEFCDAB89, 0x98BADCFE, 0x10325476, 0xC3D2E1F0) ws
         of (a, b, c, d, e) \<Rightarrow> hex32 a @ hex32 b @ hex32 c @ hex32 d @ hex32 e)"

text \<open>
  \<^verbatim>\<open>JSON.stringify\<close> of a string: the string in double quotes, with the quote, the
  backslash and the control characters escaped.
\<close>

definition json_escape :: "char \<Rightarrow> string" where
  "json_escape c =
     (if c = CHR 0x22 then [CHR 0x5C, CHR 0x22]
      else if c = CHR 0x5C then [CHR 0x5C, CHR 0x5C]
      else if c = CHR 0x08 then [CHR 0x5C, CHR ''b'']
      else if c = CHR 0x0C then [CHR 0x5C, CHR ''f'']
      else if c = CHR 0x0A then [CHR 0x5C, CHR ''n'']
      else if c = CHR 0x0D then [CHR 0x5C, CHR ''r'']
      else if c = CHR 0x09 then [CHR 0x5C, CHR ''t'']
      else if (of_char c :: nat) < 32
        then [CHR 0x5C, CHR ''u'', CHR ''0'', CHR ''0'',
              hex_digit (of_char c div 16), hex_digit (of_char c)]
      else [c])"

definition JSON_stringify :: "string \<Rightarrow> string" where
  "JSON_stringify s = [CHR 0x22] @ concat (map json_escape s) @ [CHR 0x22]"

definition generateId :: "string \<Rightarrow> string" where
  "generateId obj = sha1_hex (JSON_stringify obj)"

section \<open>The session: staged files and contracts\<close>

record pathContent =
  pc_path :: string
  pc_content :: string

record contractWrapper =
  cw_contract :: checkedContract
  cw_address :: "string option"
  cw_chainId :: "string option"
  cw_creatorTxHash :: "string option"
  cw_status :: "status option"
  cw_statusMessage :: "string option"
  cw_storageTimestamp :: "int option"

text \<open>
  The session object. Each of its fields may be \<^verbatim>\<open>undefined\<close>; the objects are lists of
  key and value in insertion order, with one entry per key.
\<close>

record session =
  ss_inputFiles :: "(string \<times> pathContent) list option"
  ss_contractWrappers :: "(string \<times> contractWrapper) list option"
  ss_unusedSources :: "string list option"

definition MAX_SESSION_SIZE :: nat where
  "MAX_SESSION_SIZE = 50 * 1024 * 1024"

definition inputFilesOf :: "session \<Rightarrow> (string \<times> pathContent) list" where
  "inputFilesOf session = (case ss_inputFiles session of None \<Rightarrow> [] | Some fs \<Rightarrow> fs)"

text \<open>
  \<open>inputSize\<close> of \<open>saveFiles\<close>: the lengths of the contents already in the session plus
  the lengths of the contents that arrive, before any of them is dropped as a duplicate.
\<close>

definition inputSize :: "pathContent list \<Rightarrow> session \<Rightarrow> nat" where
  "inputSize pathContents session =
     sum_list (map (\<lambda>(key, pc). length (pc_content pc)) (inputFilesOf session)) +
     sum_list (map (\<lambda>pc. length (pc_content pc)) pathContents)"

fun saveFiles_loop :: "pathContent list \<Rightarrow> (string \<times> pathContent) list \<Rightarrow> nat \<Rightarrow>
    (string \<times> pathContent) list \<times> nat" where
  "saveFiles_loop [] inputFiles newFilesCount = (inputFiles, newFilesCount)"
| "saveFiles_loop (pc # rest) inputFiles newFilesCount =
     (let newId = generateId (pc_content pc)
      in if newId \<notin> fst ` set inputFiles
         then saveFiles_loop rest (inputFiles @ [(newId, pc)]) (newFilesCount + 1)
         else saveFiles_loop rest inputFiles newFilesCount)"

definition saveFiles :: "pathContent list \<Rightarrow> session \<Rightarrow> (error + nat) \<times> session" where
  "saveFiles pathContents session =
     (let session1 = session\<lparr>ss_inputFiles := Some (inputFilesOf session)\<rparr>
      in if inputSize pathContents session1 > MAX_SESSION_SIZE
         then (Inl (PayloadTooLargeError
                 ''Too much session memory used. Delete some files or clear the session.''),
               session1)
         else (case saveFiles_loop pathContents (inputFilesOf session1) 0 of
                 (inputFiles, newFilesCount) \<Rightarrow>
                   (Inr newFilesCount, session1\<lparr>ss_inputFiles := Some inputFiles\<rparr>)))"

definition updateUnused :: "string list \<Rightarrow> session \<Rightarrow> session" where
  "updateUnused unused session = session\<lparr>ss_unusedSources := Some unused\<rparr>"

text \<open>
  \<open>checkContractsInSession\<close>. The oracle is the outcome of lib-sourcify's
  \<^verbatim>\<open>checkFiles\<close> on the session's files: the contracts found and the unused paths, or
  \<open>Inl\<close> when it throws.
\<close>

definition newPendingContracts :: "checkedContract list \<Rightarrow> (string \<times> contractWrapper) list" where
  "newPendingContracts contracts =
     fold (\<lambda>contract acc.
             AList.update (generateId (JSON_stringify (cc_metadataRaw contract)))
               \<lparr>cw_contract = contract, cw_address = None, cw_chainId = None,
                cw_creatorTxHash = None, cw_status = None, cw_statusMessage = None,
                cw_storageTimestamp = None\<rparr> acc)
          contracts []"

definition mergeWrapper :: "contractWrapper \<Rightarrow> contractWrapper \<Rightarrow> contractWrapper" where
  "mergeWrapper oldContractWrapper newContractWrapper =
     (let new = cw_contract newContractWrapper;
          old1 = fold (\<lambda>(path, text) c.
                         c\<lparr>cc_solidity := AList.update path text (cc_solidity c),
                           cc_missing := AList.delete path (cc_missing c)\<rparr>)
                      (cc_solidity new) (cw_contract oldContractWrapper)
      in oldContractWrapper
           \<lparr>cw_contract := old1\<lparr>cc_solidity := cc_solidity new, cc_missing := cc_missing new\<rparr>\<rparr>)"

fun mergeContracts :: "(string \<times> contractWrapper) list \<Rightarrow> (string \<times> contractWrapper) list \<Rightarrow>
    (string \<times> contractWrapper) list" where
  "mergeContracts [] contractWrappers = contractWrappers"
| "mergeContracts ((newId, newContractWrapper) # rest) contractWrappers =
     mergeContracts rest
       (case map_of contractWrappers newId of
          Some oldContractWrapper \<Rightarrow>
            AList.update newId (mergeWrapper oldContractWrapper newContractWrapper) contractWrappers
        | None \<Rightarrow> AList.update newId newContractWrapper contractWrappers)"

definition checkContractsInSession :: "error + (checkedContract list \<times> string list) \<Rightarrow>
    session \<Rightarrow> session" where
  "checkContractsInSession checkFilesResult session =
     (case checkFilesResult of
        Inr (contracts, unused) \<Rightarrow>
          updateUnused unused
            (session\<lparr>ss_contractWrappers :=
               Some (mergeContracts (newPendingContracts contracts)
                       (case ss_contractWrappers session of None \<Rightarrow> [] | Some ws \<Rightarrow> ws))\<rparr>)
      | Inl e \<Rightarrow> updateUnused (map (\<lambda>(key, pc). pc_path pc) (inputFilesOf session)) session)"

definition isVerifiable :: "contractWrapper \<Rightarrow> bool" where
  "isVerifiable contractWrapper =
     (cc_missing (cw_contract contractWrapper) = [] \<and>
      cc_invalid (cw_contract contractWrapper) = [] \<and>
      truthy (cw_address contractWrapper) \<and> truthy (cw_chainId contractWrapper))"


section \<open>Session verification\<close>

text \<open>
  The oracle of one staged contract: the contract as \<^verbatim>\<open>CheckedContract.fetchMissing\<close>
  leaves it (whether it throws or not), the first verification, \<^verbatim>\<open>useAllSources\<close> and the
  second verification.
\<close>

record session_oracle =
  so_fetchMissing :: "checkedContract \<Rightarrow> checkedContract"
  so_first :: vd_oracle
  so_useAllSources :: "error + checkedContract"
  so_second :: vd_oracle

definition checkAndFetchMissing :: "session_oracle \<Rightarrow> checkedContract \<Rightarrow> checkedContract" where
  "checkAndFetchMissing orc contract =
     (if \<not> isValid contract False then so_fetchMissing orc contract else contract)"

definition orEmpty :: "string option \<Rightarrow> string" where
  "orEmpty x = (case x of None \<Rightarrow> [] | Some v \<Rightarrow> v)"

definition errorMatch :: "contractWrapper \<Rightarrow> error \<Rightarrow> match" where
  "errorMatch contractWrapper e =
     \<lparr>m_address = orEmpty (cw_address contractWrapper),
      m_chainId = orEmpty (cw_chainId contractWrapper),
      m_runtimeMatch = None, m_creationMatch = None, m_storageTimestamp = None,
      m_message = Some (error_message e), m_abiEncodedConstructorArguments = None,
      m_creatorTxHash = None, m_libraryMap = None, m_immutableReferences = None\<rparr>"

text \<open>
  The \<^verbatim>\<open>try\<close> block of the loop body: the match it assigns, or the error it throws into
  the \<^verbatim>\<open>catch\<close>.
\<close>

definition sessionVerify_try :: "session_oracle \<Rightarrow> contractWrapper \<Rightarrow> server \<Rightarrow>
    (error + match) \<times> server" where
  "sessionVerify_try orc contractWrapper s =
     (case verifyDeployed (so_first orc) (orEmpty (cw_chainId contractWrapper))
             (orEmpty (cw_address contractWrapper)) (cw_creatorTxHash contractWrapper) s of
        (Inl e, s1) \<Rightarrow> (Inl e, s1)
      | (Inr m, s1) \<Rightarrow>
          (if m_runtimeMatch m = Some ExtraFileInputBug
           then (case so_useAllSources orc of
                   Inl e \<Rightarrow> (Inl e, s1)
                 | Inr contractWithAllSources \<Rightarrow>
                     (case verifyDeployed (so_second orc) (orEmpty (cw_chainId contractWrapper))
                             (orEmpty (cw_address contractWrapper)) None s1 of
                        (Inl e, s2) \<Rightarrow> (Inl e, s2)
                      | (Inr tempMatch, s2) \<Rightarrow>
                          (if m_runtimeMatch tempMatch = Some Perfect \<or>
                              m_runtimeMatch tempMatch = Some Partial \<or>
                              m_creationMatch tempMatch = Some Perfect \<or>
                              m_creationMatch tempMatch = Some Partial
                           then (Inr tempMatch, s2)
                           else if m_runtimeMatch tempMatch = Some ExtraFileInputBug
                           then (Inl (ValidationError extraFileMessage), s2)
                           else (Inr m, s2))))
           else (Inr m, s1)))"

text \<open>
  One iteration of the loop of \<open>verifyContractsInSession\<close>: the error that leaves the
  function, if any, the contract wrapper and the server state after the iteration.
\<close>

definition verifyContractInSession :: "env \<Rightarrow> session_oracle \<Rightarrow> contractWrapper \<Rightarrow> server \<Rightarrow>
    error option \<times> contractWrapper \<times> server" where
  "verifyContractInSession env orc contractWrapper s =
     (case (if truthy (cw_address contractWrapper) \<and> truthy (cw_chainId contractWrapper)
            then checkByChainAndAddress env (orEmpty (cw_address contractWrapper))
                   (orEmpty (cw_chainId contractWrapper)) (s_repo s)
            else Inr []) of
        Inl e \<Rightarrow> (Some e, contractWrapper, s)
      | Inr (found # _) \<Rightarrow>
          (None,
           contractWrapper
             \<lparr>cw_status := (case m_runtimeMatch found of
                              None \<Rightarrow> Some StatusError | Some st \<Rightarrow> Some st),
              cw_statusMessage := m_message found,
              cw_storageTimestamp := m_storageTimestamp found\<rparr>,
           s)
      | Inr [] \<Rightarrow>
          (let cw1 = contractWrapper
                 \<lparr>cw_contract := checkAndFetchMissing orc (cw_contract contractWrapper)\<rparr>
           in if \<not> isVerifiable cw1 then (None, cw1, s)
              else
                (case sessionVerify_try orc cw1 s of (outcome, s1) \<Rightarrow>
                   (let m = (case outcome of Inr m \<Rightarrow> m | Inl e \<Rightarrow> errorMatch cw1 e);
                        cw2 = cw1\<lparr>cw_status := (case getMatchStatus m of
                                                    None \<Rightarrow> Some StatusError
                                                  | Some st \<Rightarrow> Some st),
                                  cw_statusMessage := m_message m,
                                  cw_storageTimestamp := m_storageTimestamp m\<rparr>
                    in if m_runtimeMatch m \<noteq> None \<or> m_creationMatch m \<noteq> None
                       then (case storeMatch env (cw_contract cw1) m (s_repo s1) of
                               (Inl e, r) \<Rightarrow> (Some e, cw2, s1\<lparr>s_repo := r\<rparr>)
                             | (Inr _, r) \<Rightarrow> (None, cw2, s1\<lparr>s_repo := r\<rparr>))
                       else (None, cw2, s1)))))"

text \<open>
  The loop over the contract wrappers handed in; \<open>orc key\<close> is the oracle of the contract
  staged under \<open>key\<close>. An error ends the loop; the wrappers visited so far keep their
  updates.
\<close>

fun verifyContractsInSession :: "env \<Rightarrow> (string \<Rightarrow> session_oracle) \<Rightarrow>
    (string \<times> contractWrapper) list \<Rightarrow> server \<Rightarrow>
    error option \<times> (string \<times> contractWrapper) list \<times> server" where
  "verifyContractsInSession env orc [] s = (None, [], s)"
| "verifyContractsInSession env orc ((key, contractWrapper) # rest) s =
     (case verifyContractInSession env (orc key) contractWrapper s of
        (Some e, cw', s') \<Rightarrow> (Some e, (key, cw') # rest, s')
      | (None, cw', s') \<Rightarrow>
          (case verifyContractsInSession env orc rest s' of
             (e, rest', s'') \<Rightarrow> (e, (key, cw') # rest', s'')))"

section \<open>PendingContract: assembling a contract from decentralized storage\<close>

record fileHash =
  fh_hash :: string
  fh_origin :: string

record metadataSource =
  ms_keccak256 :: string
  ms_urls :: "string list option"
  ms_content :: "string option"

record metadata =
  md_sources :: "(string \<times> metadataSource) list option"

record pendingContract =
  pd_metadataHash :: fileHash
  pd_address :: string
  pd_chainId :: nat
  pd_metadata :: "metadata option"
  pd_pendingSources :: "(string \<times> metadataSource) list"
  pd_fetchedSources :: "(string \<times> metadataSource) list"

text \<open>
  What PendingContract takes from outside: \<^verbatim>\<open>FileHash.fromUrl\<close> (\<open>None\<close> when the URL
  holds no hash), the fetcher registered for an origin, if any, with what its \<open>fetch\<close>
  resolves to or rejects with, ethers' \<^verbatim>\<open>id\<close> (the keccak256 of a string, in hex),
  \<^verbatim>\<open>JSON.parse\<close> on the metadata string, and the order in which the fetches that the
  tasks of \<open>assemble\<close> await are settled: given the names of the tasks that wait, in the
  order in which they began to wait, \<open>pe_next\<close> is the position of the task that resumes
  next (a position outside the list stands for the first).
\<close>

record penv =
  pe_fromUrl :: "string \<Rightarrow> fileHash option"
  pe_fetchers :: "string \<Rightarrow> (fileHash \<Rightarrow> error + string) option"
  pe_keccak256str :: "string \<Rightarrow> string"
  pe_parse :: "string \<Rightarrow> error + metadata"
  pe_next :: "string list \<Rightarrow> nat"

definition newPendingContract :: "fileHash \<Rightarrow> string \<Rightarrow> nat \<Rightarrow> pendingContract" where
  "newPendingContract metadataHash address chainId =
     \<lparr>pd_metadataHash = metadataHash, pd_address = address, pd_chainId = chainId,
      pd_metadata = None, pd_pendingSources = [], pd_fetchedSources = []\<rparr>"

definition movePendingToFetchedSources :: "penv \<Rightarrow> string \<Rightarrow> pendingContract \<Rightarrow>
    error option \<times> pendingContract" where
  "movePendingToFetchedSources env sourceUnitName pc =
     (case map_of (pd_pendingSources pc) sourceUnitName of
        None \<Rightarrow> (Some (Error (''Source '' @ sourceUnitName @ '' not found'')), pc)
      | Some source \<Rightarrow>
          (if \<not> truthy (ms_content source)
           then (Some (Error (''Source '' @ sourceUnitName @ '' has no content'')), pc)
           else if pe_keccak256str env (orEmpty (ms_content source)) \<noteq> ms_keccak256 source
           then (Some (AssertionError (''Keccak mismatch for '' @ sourceUnitName)), pc)
           else (None,
                 pc\<lparr>pd_fetchedSources :=
                       AList.update sourceUnitName source (pd_fetchedSources pc),
                    pd_pendingSources := AList.delete sourceUnitName (pd_pendingSources pc)\<rparr>)))"

text \<open>
  \<^verbatim>\<open>source.content = fetchedContent\<close>. The variable \<open>source\<close> of the task is the object
  stored in \<open>pendingSources\<close> under the task's name, so the assignment is seen through
  \<open>pendingSources\<close> for as long as the entry is there. Once the entry has been moved,
  \<open>fetchedSources\<close> holds a copy and \<open>source\<close> is referenced by the task alone, which
  never reads it again.
\<close>

definition setContent :: "string \<Rightarrow> string \<Rightarrow> pendingContract \<Rightarrow> pendingContract" where
  "setContent sourceUnitName fetchedContent pc =
     (case map_of (pd_pendingSources pc) sourceUnitName of
        None \<Rightarrow> pc
      | Some source \<Rightarrow>
          pc\<lparr>pd_pendingSources :=
               AList.update sourceUnitName (source\<lparr>ms_content := Some fetchedContent\<rparr>)
                 (pd_pendingSources pc)\<rparr>)"

text \<open>
  The \<^verbatim>\<open>for (const url of source.urls || [])\<close> loop of one task, run from its first URL to
  its end with every fetch settled at once.
\<close>

fun fetchUrls :: "penv \<Rightarrow> string \<Rightarrow> string list \<Rightarrow> pendingContract \<Rightarrow>
    error option \<times> pendingContract" where
  "fetchUrls env sourceUnitName [] pc = (None, pc)"
| "fetchUrls env sourceUnitName (url # rest) pc =
     (case pe_fromUrl env url of
        None \<Rightarrow> fetchUrls env sourceUnitName rest pc
      | Some fileHash \<Rightarrow>
          (case pe_fetchers env (fh_origin fileHash) of
             None \<Rightarrow> fetchUrls env sourceUnitName rest pc
           | Some fetcher \<Rightarrow>
               (case fetcher fileHash of
                  Inl e \<Rightarrow> (Some e, pc)
                | Inr fetchedContent \<Rightarrow>
                    (case movePendingToFetchedSources env sourceUnitName
                            (setContent sourceUnitName fetchedContent pc) of
                       (Some e, pc') \<Rightarrow> (Some e, pc')
                     | (None, pc') \<Rightarrow> fetchUrls env sourceUnitName rest pc'))))"

text \<open>
  The task that \<open>assemble\<close> starts for one source unit name, run on its own from its
  start to its end.
\<close>

definition assembleSource :: "penv \<Rightarrow> string \<Rightarrow> pendingContract \<Rightarrow>
    error option \<times> pendingContract" where
  "assembleSource env sourceUnitName pc =
     (case map_of (pd_pendingSources pc) sourceUnitName of
        None \<Rightarrow> (Some (TypeError ''source is undefined''), pc)
      | Some source \<Rightarrow>
          (if truthy (ms_content source)
           then movePendingToFetchedSources env sourceUnitName pc
           else fetchUrls env sourceUnitName
                  (case ms_urls source of None \<Rightarrow> [] | Some urls \<Rightarrow> urls) pc))"

text \<open>
  The tasks of \<open>assemble\<close> run interleaved: a task runs without interruption up to its
  next \<^verbatim>\<open>await\<close>, and the only \<^verbatim>\<open>await\<close> of a task is the one on \<^verbatim>\<open>fetcher.fetch\<close>. A task
  that waits is described by what its fetch is settled with and by the URLs that follow
  the one being fetched. \<open>nextFetch\<close> is the loop of a task from a given URL up to the
  next fetch: the URLs without hash or without fetcher are skipped, and \<open>None\<close> is the
  loop that has come to its end.
\<close>

type_synonym awaited = "(error + string) \<times> string list"

fun nextFetch :: "penv \<Rightarrow> string list \<Rightarrow> awaited option" where
  "nextFetch env [] = None"
| "nextFetch env (url # rest) =
     (case pe_fromUrl env url of
        None \<Rightarrow> nextFetch env rest
      | Some fileHash \<Rightarrow>
          (case pe_fetchers env (fh_origin fileHash) of
             None \<Rightarrow> nextFetch env rest
           | Some fetcher \<Rightarrow> Some (fetcher fileHash, rest)))"

text \<open>
  A task from its start to its first \<^verbatim>\<open>await\<close> or, for a source with inline content or
  without a URL to fetch, to its end: the error it throws, if any, and the fetch it waits
  for, if any.
\<close>

definition startTask :: "penv \<Rightarrow> string \<Rightarrow> pendingContract \<Rightarrow>
    error option \<times> awaited option \<times> pendingContract" where
  "startTask env sourceUnitName pc =
     (case map_of (pd_pendingSources pc) sourceUnitName of
        None \<Rightarrow> (Some (TypeError ''source is undefined''), None, pc)
      | Some source \<Rightarrow>
          (if truthy (ms_content source)
           then (case movePendingToFetchedSources env sourceUnitName pc of
                   (e, pc') \<Rightarrow> (e, None, pc'))
           else (None,
                 nextFetch env (case ms_urls source of None \<Rightarrow> [] | Some urls \<Rightarrow> urls),
                 pc)))"

text \<open>
  A task from the moment its fetch is settled to its next \<^verbatim>\<open>await\<close> or to its end.
\<close>

definition resumeTask :: "penv \<Rightarrow> string \<Rightarrow> awaited \<Rightarrow> pendingContract \<Rightarrow>
    error option \<times> awaited option \<times> pendingContract" where
  "resumeTask env sourceUnitName a pc =
     (case a of
        (Inl e, rest) \<Rightarrow> (Some e, None, pc)
      | (Inr fetchedContent, rest) \<Rightarrow>
          (case movePendingToFetchedSources env sourceUnitName
                  (setContent sourceUnitName fetchedContent pc) of
             (Some e, pc') \<Rightarrow> (Some e, None, pc')
           | (None, pc') \<Rightarrow> (None, nextFetch env rest, pc')))"

text \<open>
  \<^verbatim>\<open>Object.keys(this.pendingSources).map(async ...)\<close>: the tasks are started one after the
  other in the order of the keys, each running up to its first \<^verbatim>\<open>await\<close>. The result is
  the errors thrown so far, the tasks that wait, both in the order of the keys, and the
  contract.
\<close>

fun startAll :: "penv \<Rightarrow> string list \<Rightarrow> pendingContract \<Rightarrow>
    error list \<times> (string \<times> awaited) list \<times> pendingContract" where
  "startAll env [] pc = ([], [], pc)"
| "startAll env (sourceUnitName # rest) pc =
     (case startTask env sourceUnitName pc of (e, a, pc') \<Rightarrow>
        (case startAll env rest pc' of (es, waiting, pc'') \<Rightarrow>
           ((case e of None \<Rightarrow> es | Some x \<Rightarrow> x # es),
            (case a of None \<Rightarrow> waiting | Some w \<Rightarrow> (sourceUnitName, w) # waiting),
            pc'')))"

text \<open>
  The fetches are settled one at a time, in the order that \<open>pe_next\<close> gives; the task
  of a settled fetch resumes and, when it reaches another fetch, waits again behind the
  others. \<open>resumeSteps env k\<close> lets \<open>k\<close> fetches settle, or fewer when no task waits
  any more: the errors thrown in the order of their time, the tasks that still wait and
  the contract. A task resumes at most once for each of its URLs, so \<open>workLeft\<close> bounds
  the number of fetches still to settle.
\<close>

definition pick :: "penv \<Rightarrow> (string \<times> awaited) list \<Rightarrow> nat" where
  "pick env waiting =
     (if pe_next env (map fst waiting) < length waiting then pe_next env (map fst waiting)
      else 0)"

fun resumeSteps :: "penv \<Rightarrow> nat \<Rightarrow> (string \<times> awaited) list \<Rightarrow> pendingContract \<Rightarrow>
    error list \<times> (string \<times> awaited) list \<times> pendingContract" where
  "resumeSteps env 0 waiting pc = ([], waiting, pc)"
| "resumeSteps env (Suc k) waiting pc =
     (if waiting = [] then ([], waiting, pc)
      else
        (let i = pick env waiting;
             others = take i waiting @ drop (Suc i) waiting
         in case waiting ! i of (sourceUnitName, a) \<Rightarrow>
              (case resumeTask env sourceUnitName a pc of (e, next, pc') \<Rightarrow>
                 (case resumeSteps env k
                         (others @ (case next of None \<Rightarrow> [] | Some w \<Rightarrow> [(sourceUnitName, w)]))
                         pc' of
                    (es, waiting', pc'') \<Rightarrow>
                      ((case e of None \<Rightarrow> es | Some x \<Rightarrow> x # es), waiting', pc'')))))"

definition workLeft :: "(string \<times> awaited) list \<Rightarrow> nat" where
  "workLeft waiting = sum_list (map (\<lambda>(sourceUnitName, a). Suc (length (snd a))) waiting)"

text \<open>
  \<^verbatim>\<open>Promise.all\<close> over the tasks, seen after \<open>k\<close> fetches have settled (\<open>Some k\<close>) or once
  every task has ended (\<open>None\<close>). The promise rejects with the error that was thrown
  first in time, the errors of the synchronous parts coming before those of the resumed
  tasks; the tasks go on after that rejection.
\<close>

definition assembleAll :: "penv \<Rightarrow> nat option \<Rightarrow> string list \<Rightarrow> pendingContract \<Rightarrow>
    error option \<times> pendingContract" where
  "assembleAll env limit names pc =
     (case startAll env names pc of (es, waiting, pc') \<Rightarrow>
        (case resumeSteps env (case limit of None \<Rightarrow> workLeft waiting | Some k \<Rightarrow> k)
                waiting pc' of
           (es', waiting', pc'') \<Rightarrow>
             ((case es @ es' of [] \<Rightarrow> None | e # _ \<Rightarrow> Some e), pc'')))"

text \<open>
  \<open>assemble\<close>, seen at the same moments: \<open>assembleUntil env (Some k)\<close> is the contract
  when \<open>k\<close> source fetches have settled, with the error thrown first up to then;
  \<open>assemble\<close> is the contract when every task has ended.
\<close>

definition assembleUntil :: "penv \<Rightarrow> nat option \<Rightarrow> pendingContract \<Rightarrow>
    error option \<times> pendingContract" where
  "assembleUntil env limit pc =
     (case pe_fetchers env (fh_origin (pd_metadataHash pc)) of
        None \<Rightarrow>
          (Some (Error (''No metadata fetcher found origin='' @ fh_origin (pd_metadataHash pc))),
           pc)
      | Some metadataFetcher \<Rightarrow>
          (case metadataFetcher (pd_metadataHash pc) of
             Inl err \<Rightarrow>
               (Some (Error (''Can't fetch metadata address='' @ pd_address pc @
                             '' hash='' @ fh_hash (pd_metadataHash pc) @
                             '' origin='' @ fh_origin (pd_metadataHash pc) @
                             '': '' @ error_toString err)),
                pc)
           | Inr metadataStr \<Rightarrow>
               (case pe_parse env metadataStr of
                  Inl e \<Rightarrow> (Some e, pc)
                | Inr md \<Rightarrow>
                    (case md_sources md of
                       None \<Rightarrow>
                         (Some (Error ''SyntaxError: undefined is not valid JSON''),
                          pc\<lparr>pd_metadata := Some md\<rparr>)
                     | Some sources \<Rightarrow>
                         assembleAll env limit (map fst sources)
                           (pc\<lparr>pd_metadata := Some md, pd_pendingSources := sources\<rparr>)))))"

definition assemble :: "penv \<Rightarrow> pendingContract \<Rightarrow> error option \<times> pendingContract" where
  "assemble env pc = assembleUntil env None pc"

section \<open>Notions used in the statements\<close>


definition fileContent :: "repository \<Rightarrow> location \<Rightarrow> content option" where
  "fileContent r loc = map_option f_content (stat r loc)"

text \<open>
  The timestamp of a repository tag, the timestamps written to \<^verbatim>\<open>manifest.json\<close> in the
  order of the writes, the last of them, and the timestamp that the manifest holds.
\<close>

fun tagTimestamp :: "content \<Rightarrow> int option" where
  "tagTimestamp (Stringified (JObject [(k, JNumber t)])) =
     (if k = ''timestamp'' then Some t else None)"
| "tagTimestamp _ = None"

fun manifestWrites :: "fs_op list \<Rightarrow> int list" where
  "manifestWrites [] = []"
| "manifestWrites (WriteFileSync ManifestFile c # ops) =
     (case tagTimestamp c of Some t \<Rightarrow> t # manifestWrites ops | None \<Rightarrow> manifestWrites ops)"
| "manifestWrites (_ # ops) = manifestWrites ops"

definition lastManifestWrite :: "fs_op list \<Rightarrow> int option" where
  "lastManifestWrite ops =
     (case manifestWrites ops of [] \<Rightarrow> None | t # ts \<Rightarrow> Some (last (t # ts)))"

definition manifestTimestamp :: "repository \<Rightarrow> int option" where
  "manifestTimestamp r = (case r_manifest r of None \<Rightarrow> None | Some c \<Rightarrow> tagTimestamp c)"

definition tagOf :: "env \<Rightarrow> repository \<Rightarrow> content" where
  "tagOf env r =
     Stringified (JObject [(''timestamp'', JNumber (e_clock env (r_clockReads r - 1)))])"

text \<open>The wall clock never goes back from one reading to a later one.\<close>

definition clockNeverGoesBack :: "env \<Rightarrow> bool" where
  "clockNeverGoesBack env \<longleftrightarrow> (\<forall>i j. i \<le> j \<longrightarrow> e_clock env i \<le> e_clock env j)"

text \<open>
  Invariants of the repository: the timestamps written so far are in order and none is
  ahead of the next clock reading; the manifest holds the last timestamp written.
\<close>

definition tagInv :: "env \<Rightarrow> repository \<Rightarrow> bool" where
  "tagInv env r \<longleftrightarrow>
     sorted (manifestWrites (r_ops r)) \<and>
     (\<forall>t \<in> set (manifestWrites (r_ops r)). t \<le> e_clock env (r_clockReads r))"

definition manifestInv :: "repository \<Rightarrow> bool" where
  "manifestInv r \<longleftrightarrow> manifestTimestamp r = lastManifestWrite (r_ops r)"

text \<open>
  What \<open>storeMatch\<close> makes of the artifacts it has stored: it resolves to nothing, or
  rejects with the error that was thrown.
\<close>

definition outcome :: "error option \<times> repository \<Rightarrow> (error + match option) \<times> repository" where
  "outcome x = (case fst x of None \<Rightarrow> Inr None | Some e \<Rightarrow> Inl e, snd x)"

text \<open>A sequence of \<open>storeMatch\<close> calls, each on the repository the one before left.\<close>

fun storeMatches :: "env \<Rightarrow> (checkedContract \<times> match) list \<Rightarrow> repository \<Rightarrow> repository" where
  "storeMatches env [] r = r"
| "storeMatches env ((contract, m) # rest) r =
     storeMatches env rest (snd (storeMatch env contract m r))"


text \<open>
  For a pending contract: a source entry is valid when its content is truthy (present and
  not the empty string, the test that the code applies to \<^verbatim>\<open>source.content\<close>) and hashes
  to the declared keccak256; \<open>fetchUrl\<close> is what fetching a URL gives, \<open>None\<close> when
  the URL holds no hash or its origin has no fetcher; the source paths are the keys of
  \<^verbatim>\<open>metadata.sources\<close>; the entry of a path is the one in \<open>fetchedSources\<close> or else the
  one in \<open>pendingSources\<close>. \<open>settled\<close> describes a path whose task has started: it is
  in exactly one of the two maps, and in \<open>fetchedSources\<close> exactly when its entry is
  valid. \<open>assembled env limit\<close> is a new PendingContract on which \<open>assemble\<close> has been
  called, seen once every task has ended (\<open>None\<close>) or when \<open>k\<close> source fetches have
  settled (\<open>Some k\<close>). \<open>continueTask\<close> is a task on its own from a settled fetch to
  its end, \<open>sameAt\<close> says that two contracts have the same entries for a path, and
  \<open>taskLeft\<close> is the contract that the task of a path would leave if it ran on its own
  from where it is: from the fetch it waits for, or nothing when it does not wait.
\<close>

definition validSource :: "penv \<Rightarrow> metadataSource \<Rightarrow> bool" where
  "validSource env source \<longleftrightarrow>
     truthy (ms_content source) \<and>
     pe_keccak256str env (orEmpty (ms_content source)) = ms_keccak256 source"

definition fetchUrl :: "penv \<Rightarrow> string \<Rightarrow> (error + string) option" where
  "fetchUrl env url =
     (case pe_fromUrl env url of
        None \<Rightarrow> None
      | Some fileHash \<Rightarrow>
          (case pe_fetchers env (fh_origin fileHash) of
             None \<Rightarrow> None
           | Some fetcher \<Rightarrow> Some (fetcher fileHash)))"

definition sourcePaths :: "pendingContract \<Rightarrow> string list" where
  "sourcePaths pc =
     (case pd_metadata pc of
        None \<Rightarrow> []
      | Some md \<Rightarrow> (case md_sources md of None \<Rightarrow> [] | Some sources \<Rightarrow> map fst sources))"

definition isPending :: "pendingContract \<Rightarrow> string \<Rightarrow> bool" where
  "isPending pc path \<longleftrightarrow> map_of (pd_pendingSources pc) path \<noteq> None"

definition isFetched :: "pendingContract \<Rightarrow> string \<Rightarrow> bool" where
  "isFetched pc path \<longleftrightarrow> map_of (pd_fetchedSources pc) path \<noteq> None"

definition sourceEntry :: "pendingContract \<Rightarrow> string \<Rightarrow> metadataSource option" where
  "sourceEntry pc path =
     (case map_of (pd_fetchedSources pc) path of
        Some source \<Rightarrow> Some source
      | None \<Rightarrow> map_of (pd_pendingSources pc) path)"

definition settled :: "penv \<Rightarrow> string \<Rightarrow> pendingContract \<Rightarrow> bool" where
  "settled env path pc \<longleftrightarrow>
     (case map_of (pd_pendingSources pc) path of
        Some source \<Rightarrow> \<not> validSource env source \<and> map_of (pd_fetchedSources pc) path = None
      | None \<Rightarrow>
          (case map_of (pd_fetchedSources pc) path of
             Some source \<Rightarrow> validSource env source
           | None \<Rightarrow> False))"

definition continueTask :: "penv \<Rightarrow> string \<Rightarrow> awaited \<Rightarrow> pendingContract \<Rightarrow>
    error option \<times> pendingContract" where
  "continueTask env sourceUnitName a pc =
     (case a of
        (Inl e, rest) \<Rightarrow> (Some e, pc)
      | (Inr fetchedContent, rest) \<Rightarrow>
          (case movePendingToFetchedSources env sourceUnitName
                  (setContent sourceUnitName fetchedContent pc) of
             (Some e, pc') \<Rightarrow> (Some e, pc')
           | (None, pc') \<Rightarrow> fetchUrls env sourceUnitName rest pc'))"

definition sameAt :: "string \<Rightarrow> pendingContract \<Rightarrow> pendingContract \<Rightarrow> bool" where
  "sameAt path pc pc' \<longleftrightarrow>
     map_of (pd_pendingSources pc) path = map_of (pd_pendingSources pc') path \<and>
     map_of (pd_fetchedSources pc) path = map_of (pd_fetchedSources pc') path"

definition taskLeft :: "penv \<Rightarrow> string \<Rightarrow> (string \<times> awaited) list \<Rightarrow> pendingContract \<Rightarrow>
    pendingContract" where
  "taskLeft env path waiting pc =
     (case map_of waiting path of None \<Rightarrow> pc | Some a \<Rightarrow> snd (continueTask env path a pc))"

definition assembled :: "penv \<Rightarrow> nat option \<Rightarrow> fileHash \<Rightarrow> string \<Rightarrow> nat \<Rightarrow> pendingContract" where
  "assembled env limit metadataHash address chainId =
     snd (assembleUntil env limit (newPendingContract metadataHash address chainId))"

text \<open>
  For a session: its contract wrappers, and what it means that every input file and
  every staged contract is stored under the id that \<open>generateId\<close> computes for it.
\<close>

definition wrappersOf :: "session \<Rightarrow> (string \<times> contractWrapper) list" where
  "wrappersOf session = (case ss_contractWrappers session of None \<Rightarrow> [] | Some ws \<Rightarrow> ws)"

definition keyedFiles :: "(string \<times> pathContent) list \<Rightarrow> bool" where
  "keyedFiles inputFiles \<longleftrightarrow>
     list_all (\<lambda>(key, pc). key = sha1_hex (JSON_stringify (pc_content pc))) inputFiles"

definition keyedContracts :: "(string \<times> contractWrapper) list \<Rightarrow> bool" where
  "keyedContracts contractWrappers \<longleftrightarrow>
     list_all (\<lambda>(key, w). key = sha1_hex (JSON_stringify (JSON_stringify
                               (cc_metadataRaw (cw_contract w))))) contractWrappers"

section \<open>Concrete inputs\<close>

text \<open>An empty repository, a server with no verification in progress, and a match.\<close>

definition emptyRepository :: repository where
  "emptyRepository = \<lparr>r_dirs = Map.empty, r_manifest = None, r_ops = [], r_clockReads = 0\<rparr>"

definition idleServer :: server where
  "idleServer = \<lparr>s_active = Map.empty, s_repo = emptyRepository\<rparr>"

definition exampleMatch :: "status option \<Rightarrow> status option \<Rightarrow> match" where
  "exampleMatch rm cm =
     \<lparr>m_address = ''0xA'', m_chainId = ''1'', m_runtimeMatch = rm, m_creationMatch = cm,
      m_storageTimestamp = None, m_message = None, m_abiEncodedConstructorArguments = None,
      m_creatorTxHash = None, m_libraryMap = None, m_immutableReferences = None\<rparr>"

definition emptySession :: session where
  "emptySession = \<lparr>ss_inputFiles = None, ss_contractWrappers = None, ss_unusedSources = None\<rparr>"

text \<open>
  A session that holds one file, the base64 text of \<^verbatim>\<open>contract A {}\<close>, under its id.
\<close>

definition stagedSession :: session where
  "stagedSession =
     \<lparr>ss_inputFiles = Some [(''0cbad0b34e0580bf946c46245febe2649906d688'',
                             \<lparr>pc_path = ''A.sol'', pc_content = ''Y29udHJhY3QgQSB7fQ==''\<rparr>)],
      ss_contractWrappers = None, ss_unusedSources = None\<rparr>"

text \<open>
  The calls that a POSIX file system refuses because of the names alone, for file names
  that are relative paths in normal form. The path of a file inside its contract
  directory is the list of its components. A recursive mkdir of the directory of a file
  is refused with \<^verbatim>\<open>ENAMETOOLONG\<close> when a component of the directory has more than 255
  bytes, with \<^verbatim>\<open>EEXIST\<close> when the directory is the path of a file and with \<^verbatim>\<open>ENOTDIR\<close> when a
  file lies on the way to it; a write is refused with \<^verbatim>\<open>ENAMETOOLONG\<close> when the name of the
  file has more than 255 bytes and with \<^verbatim>\<open>EISDIR\<close> when files are stored below its path.
\<close>

definition components :: "bool \<Rightarrow> string \<Rightarrow> string list" where
  "components s n = (if s then [''sources''] else []) @ split_sep n"

definition filesIn :: "repository \<Rightarrow> contractDir \<Rightarrow> string list list" where
  "filesIn r d =
     (case r_dirs r d of None \<Rightarrow> [] | Some fs \<Rightarrow> map (\<lambda>((s, n), f). components s n) fs)"

definition liesBelow :: "string list \<Rightarrow> string list \<Rightarrow> bool" where
  "liesBelow path dir \<longleftrightarrow> length dir < length path \<and> take (length dir) path = dir"

definition posixMkdirRefused :: "repository \<Rightarrow> location \<Rightarrow> (string \<times> bool) option" where
  "posixMkdirRefused r loc =
     (case loc of
        ContractFile d s n \<Rightarrow>
          (let dir = butlast (components s n)
           in if list_ex (\<lambda>c. 255 < length c) dir then Some (''ENAMETOOLONG'', True)
              else if list_ex (\<lambda>f. f = dir) (filesIn r d) then Some (''EEXIST'', False)
              else if list_ex (\<lambda>f. liesBelow dir f) (filesIn r d) then Some (''ENOTDIR'', False)
              else None)
      | _ \<Rightarrow> None)"

definition posixWriteRefused :: "repository \<Rightarrow> location \<Rightarrow> string option" where
  "posixWriteRefused r loc =
     (case loc of
        ContractFile d s n \<Rightarrow>
          (if 255 < length (last (components s n)) then Some ''ENAMETOOLONG''
           else if list_ex (\<lambda>f. liesBelow f (components s n)) (filesIn r d) then Some ''EISDIR''
           else None)
      | _ \<Rightarrow> None)"

text \<open>
  An environment in which every non-empty address is its own checksummed form, paths need
  no sanitizing, the clock advances by one millisecond per reading and the file system
  refuses what the names forbid; a second one whose clock is set back by ten seconds
  after the fourth reading.
\<close>

definition exampleEnv :: env where
  "exampleEnv =
     \<lparr>e_getAddress = (\<lambda>a. if a = [] then None else Some a),
      e_normalize = (\<lambda>p. p),
      e_parse = (\<lambda>p. \<lparr>pp_root = [], pp_dir = [], pp_base = p, pp_ext = [], pp_name = p\<rparr>),
      e_format = (\<lambda>p. if pp_dir p = [] then pp_base p else pp_dir p @ ''/'' @ pp_base p),
      e_clock = (\<lambda>n. 1700000000000 + int n),
      e_mkdirRefused = posixMkdirRefused,
      e_writeRefused = posixWriteRefused\<rparr>"

definition steppingBackEnv :: env where
  "steppingBackEnv =
     exampleEnv\<lparr>e_clock := (\<lambda>n. if n < 4 then 1700000000000 + int n
                                 else 1699999990000 + int n)\<rparr>"

definition exampleContract :: checkedContract where
  "exampleContract =
     \<lparr>cc_name = ''A'', cc_metadata = JObject [(''language'', JString ''Solidity'')],
      cc_metadataRaw = ''{}'', cc_solidity = [(''A.sol'', ''contract A {}'')],
      cc_missing = [], cc_invalid = []\<rparr>"

text \<open>
  The same contract with a second source whose path runs through the path of the first:
  \<^verbatim>\<open>sources/A.sol\<close> is a file when \<^verbatim>\<open>sources/A.sol/B.sol\<close> is to be saved.
\<close>

definition nestedContract :: checkedContract where
  "nestedContract =
     exampleContract
       \<lparr>cc_solidity := [(''A.sol'', ''contract A {}''), (''A.sol/B.sol'', ''contract B {}'')]\<rparr>"

text \<open>A repository that holds a partial match of the contract at 0xA on chain 1.\<close>

definition partialRepository :: repository where
  "partialRepository =
     \<lparr>r_dirs = [(PartialQuality, ''1'', ''0xA'') \<mapsto>
                  [((False, ''metadata.json''),
                    \<lparr>f_content = Stringified (JObject [(''language'', JString ''Solidity'')]),
                     f_birthtime = 1600000000000\<rparr>)]],
      r_manifest = Some (Stringified (JObject [(''timestamp'', JNumber 1600000000001)])),
      r_ops = [], r_clockReads = 0\<rparr>"

text \<open>
  A request for the stateless handler with two uploaded files, a contract staged in a
  session, a repository that holds a full match of the contract, and oracles: a
  verification that returns a given match, one that finds the extra-file input bug first
  and a partial match with all sources, one whose bytecodes do not match and one that
  finds a perfect match.
\<close>

definition exampleRequest :: legacyVerifyRequest where
  "exampleRequest =
     \<lparr>q_address = ''0xA'', q_chain = ''1'', q_chosenContract = None, q_creatorTxHash = None,
      q_files = Some [\<lparr>pb_path = ''A.sol'', pb_buffer = ''contract A {}''\<rparr>,
                      \<lparr>pb_path = ''B.sol'', pb_buffer = ''contract B {}''\<rparr>]\<rparr>"

definition returns :: "match \<Rightarrow> vd_oracle" where
  "returns m = \<lparr>o_creatorTx = Inr None, o_verify = Inr m\<rparr>"

definition bugThenPartial :: legacy_oracle where
  "bugThenPartial =
     \<lparr>lo_checkFiles = Inr [exampleContract],
      lo_first = returns (exampleMatch (Some ExtraFileInputBug) None),
      lo_useAllSources = Inr (exampleContract
         \<lparr>cc_solidity := [(''A.sol'', ''contract A {}''), (''B.sol'', ''contract B {}'')]\<rparr>),
      lo_second = returns (exampleMatch (Some Partial) None)\<rparr>"

definition exampleWrapper :: contractWrapper where
  "exampleWrapper =
     \<lparr>cw_contract = exampleContract, cw_address = Some ''0xA'', cw_chainId = Some ''1'',
      cw_creatorTxHash = None, cw_status = None, cw_statusMessage = None,
      cw_storageTimestamp = None\<rparr>"

definition fullRepository :: repository where
  "fullRepository =
     \<lparr>r_dirs = [(Full, ''1'', ''0xA'') \<mapsto>
                  [((False, ''metadata.json''),
                    \<lparr>f_content = Stringified (JObject [(''language'', JString ''Solidity'')]),
                     f_birthtime = 1600000000000\<rparr>)]],
      r_manifest = Some (Stringified (JObject [(''timestamp'', JNumber 1600000000001)])),
      r_ops = [], r_clockReads = 0\<rparr>"

definition mismatchOracle :: session_oracle where
  "mismatchOracle =
     \<lparr>so_fetchMissing = (\<lambda>c. c),
      so_first = \<lparr>o_creatorTx = Inr None,
                   o_verify = Inl (Error ''The deployed and recompiled bytecode don't match.'')\<rparr>,
      so_useAllSources = Inr exampleContract,
      so_second = \<lparr>o_creatorTx = Inr None,
                    o_verify = Inl (Error ''The deployed and recompiled bytecode don't match.'')\<rparr>\<rparr>"

definition perfectOracle :: session_oracle where
  "perfectOracle =
     \<lparr>so_fetchMissing = (\<lambda>c. c),
      so_first = returns (exampleMatch (Some Perfect) None),
      so_useAllSources = Inr exampleContract,
      so_second = returns (exampleMatch (Some Perfect) None)\<rparr>"

text \<open>
  An environment for PendingContract with an IPFS fetcher only, a stand-in for
  keccak256 and fetches that settle in the order in which they were started, and three
  pending contracts whose source A.sol has no inline content:
  one with a swarm URL before and after the IPFS URL, one whose first URL delivers a body with a
  different hash, and one with two URLs that can both be fetched.
\<close>

definition examplePenv :: penv where
  "examplePenv =
     \<lparr>pe_fromUrl = (\<lambda>url. if take 7 url = ''ipfs://''
                           then Some \<lparr>fh_hash = drop 7 url, fh_origin = ''ipfs''\<rparr> else None),
      pe_fetchers = (\<lambda>origin.
         if origin = ''ipfs''
         then Some (\<lambda>fileHash.
                if fh_hash fileHash = ''QmMeta'' then Inr ''metadata''
                else if fh_hash fileHash = ''QmA'' then Inr ''contract A {}''
                else if fh_hash fileHash = ''QmTampered'' then Inr ''contract B {}''
                else Inl (Error ''fetch-unavailable''))
         else None),
      pe_keccak256str = (\<lambda>s. ''keccak256 of '' @ s),
      pe_parse = (\<lambda>s.
         if s = ''metadata''
         then Inr \<lparr>md_sources = Some
                [(''A.sol'', \<lparr>ms_keccak256 = ''keccak256 of contract A {}'',
                              ms_urls = Some [''bzz-raw://1234'', ''ipfs://QmA''],
                              ms_content = None\<rparr>),
                 (''L.sol'', \<lparr>ms_keccak256 = ''keccak256 of library L {}'',
                              ms_urls = None, ms_content = Some ''library L {}''\<rparr>)]\<rparr>
         else Inl (Error ''SyntaxError'')),
      pe_next = (\<lambda>names. 0)\<rparr>"

text \<open>The same environment when the source \<^verbatim>\<open>QmA\<close> can no longer be fetched.\<close>

definition unavailablePenv :: penv where
  "unavailablePenv =
     examplePenv
       \<lparr>pe_fetchers := (\<lambda>origin.
          if origin = ''ipfs''
          then Some (\<lambda>fileHash.
                 if fh_hash fileHash = ''QmMeta'' then Inr ''metadata''
                 else Inl (Error ''fetch-unavailable''))
          else None)\<rparr>"


definition tamperedFirst :: pendingContract where
  "tamperedFirst =
     \<lparr>pd_metadataHash = \<lparr>fh_hash = ''QmMeta'', fh_origin = ''ipfs''\<rparr>, pd_address = ''0xA'',
      pd_chainId = 5, pd_metadata = None,
      pd_pendingSources =
        [(''A.sol'', \<lparr>ms_keccak256 = ''keccak256 of contract A {}'',
                      ms_urls = Some [''ipfs://QmTampered'', ''ipfs://QmA''],
                      ms_content = None\<rparr>)],
      pd_fetchedSources = []\<rparr>"

definition fetchableTwice :: pendingContract where
  "fetchableTwice =
     \<lparr>pd_metadataHash = \<lparr>fh_hash = ''QmMeta'', fh_origin = ''ipfs''\<rparr>, pd_address = ''0xA'',
      pd_chainId = 5, pd_metadata = None,
      pd_pendingSources =
        [(''A.sol'', \<lparr>ms_keccak256 = ''keccak256 of contract A {}'',
                      ms_urls = Some [''ipfs://QmA'', ''ipfs://QmA''],
                      ms_content = None\<rparr>)],
      pd_fetchedSources = []\<rparr>"

section \<open>The repository\<close>

lemma andThen_None [simp]: "andThen (None, r) f = f r"
  by (simp add: andThen_def)

lemma andThen_Some [simp]: "andThen (Some e, r) f = (Some e, r)"
  by (simp add: andThen_def)

lemma andThen_success: "fst x = None \<Longrightarrow> andThen x f = f (snd x)"
  by (cases x) (simp add: andThen_def)

lemma andThen_preserves:
  assumes "P (snd x)" and "\<And>r. P r \<Longrightarrow> P (snd (f r))"
  shows "P (snd (andThen x f))"
  using assms by (cases x; cases "fst x") (auto simp: andThen_def)

lemma andThen_step:
  assumes "fst (andThen x f) = None"
    and "fst x = None \<Longrightarrow> P (snd x)"
    and "\<And>r. P r \<Longrightarrow> fst (f r) = None \<Longrightarrow> Q (snd (f r))"
  shows "Q (snd (andThen x f))"
  using assms by (cases x; cases "fst x") (auto simp: andThen_def)

lemma andThen_error:
  assumes "fst (andThen x f) = Some e"
    and "fst x = Some e \<Longrightarrow> E"
    and "\<And>r. fst (f r) = Some e \<Longrightarrow> E"
  shows E
  using assms by (cases x; cases "fst x") (auto simp: andThen_def)

lemma save_invalid:
  "e_getAddress env (p_address p) = None \<Longrightarrow>
   save env p c r = (Some (Error ''invalid address''), r)"
  by (simp add: save_def generateAbsoluteFilePath_def)

text \<open>
  \<open>save\<close> with an accepted address: the three calls in a row, on the file of the
  contract directory that the PathConfig names.
\<close>

lemma save_valid:
  assumes "e_getAddress env (p_address p) = Some a" and "p_source p \<or> p_fileName p \<noteq> []"
  shows "save env p c r =
           andThen (mkdirSync env (p_matchQuality p, p_chainId p, a) (p_source p) (p_fileName p) r)
             (\<lambda>r. andThen (writeFileSync env (p_matchQuality p, p_chainId p, a) (p_source p)
                               (p_fileName p) c r)
                (\<lambda>r. updateRepositoryTag env r))"
  using assms by (auto simp: save_def generateAbsoluteFilePath_def)

lemma save_directory:
  assumes "e_getAddress env (p_address p) = Some a" and "\<not> (p_source p \<or> p_fileName p \<noteq> [])"
  shows "save env p c r = (Some (SystemError ''EISDIR''), r)"
  using assms by (auto simp: save_def generateAbsoluteFilePath_def)

lemma mkdirSync_error:
  "fst (mkdirSync env d s n r) = Some e \<Longrightarrow> \<exists>code. e = SystemError code"
  by (auto simp: mkdirSync_def Let_def split: option.splits prod.splits bool.splits)

lemma writeFileSync_error:
  "fst (writeFileSync env d s n c r) = Some e \<Longrightarrow> \<exists>code. e = SystemError code"
  by (auto simp: writeFileSync_def Let_def readClock_def split: option.splits prod.splits)

lemma updateRepositoryTag_error:
  "fst (updateRepositoryTag env r) = Some e \<Longrightarrow> \<exists>code. e = SystemError code"
  by (auto simp: updateRepositoryTag_def Let_def readClock_def split: option.splits prod.splits)

lemma save_error:
  assumes "e_getAddress env (p_address p) = Some a" and "fst (save env p c r) = Some e"
  shows "\<exists>code. e = SystemError code"
proof (cases "p_source p \<or> p_fileName p \<noteq> []")
  case False
  then show ?thesis using assms by (auto simp: save_directory)
next
  case True
  show ?thesis
    using assms(2) unfolding save_valid[OF assms(1) True]
    apply -
    apply (erule andThen_error)
     apply (erule mkdirSync_error)
    apply (erule andThen_error)
     apply (erule writeFileSync_error)
    apply (erule updateRepositoryTag_error)
    done
qed

lemma save_preserves:
  assumes "P r"
    and "\<And>d s n r. P r \<Longrightarrow> P (snd (mkdirSync env d s n r))"
    and "\<And>d s n c r. P r \<Longrightarrow> P (snd (writeFileSync env d s n c r))"
    and "\<And>r. P r \<Longrightarrow> P (snd (updateRepositoryTag env r))"
  shows "P (snd (save env p c r))"
proof (cases "e_getAddress env (p_address p)")
  case None
  then show ?thesis using assms(1) by (simp add: save_invalid)
next
  case (Some a)
  show ?thesis
  proof (cases "p_source p \<or> p_fileName p \<noteq> []")
    case False
    then show ?thesis using assms(1) Some by (simp add: save_directory)
  next
    case True
    show ?thesis
      unfolding save_valid[OF Some True]
      apply (rule andThen_preserves[where P = P])
       apply (rule assms(2)[OF assms(1)])
      apply (rule andThen_preserves[where P = P])
       apply (erule assms(3))
      apply (erule assms(4))
      done
  qed
qed


lemma save_success:
  assumes "e_getAddress env (p_address p) = Some a" and "fst (save env p c r) = None"
  shows "\<exists>r1 r2.
    mkdirSync env (p_matchQuality p, p_chainId p, a) (p_source p) (p_fileName p) r = (None, r1) \<and>
    writeFileSync env (p_matchQuality p, p_chainId p, a) (p_source p) (p_fileName p) c r1 =
       (None, r2) \<and>
    fst (updateRepositoryTag env r2) = None \<and>
    save env p c r = updateRepositoryTag env r2"
proof (cases "p_source p \<or> p_fileName p \<noteq> []")
  case False
  then show ?thesis using assms by (simp add: save_directory)
next
  case True
  let ?d = "(p_matchQuality p, p_chainId p, a)"
  obtain e1 r1 where m: "mkdirSync env ?d (p_source p) (p_fileName p) r = (e1, r1)"
    by (cases "mkdirSync env ?d (p_source p) (p_fileName p) r")
  obtain e2 r2 where w: "writeFileSync env ?d (p_source p) (p_fileName p) c r1 = (e2, r2)"
    by (cases "writeFileSync env ?d (p_source p) (p_fileName p) c r1")
  have e1: "e1 = None"
    using assms(2) m unfolding save_valid[OF assms(1) True] by (cases e1) simp_all
  have e2: "e2 = None"
    using assms(2) m w e1 unfolding save_valid[OF assms(1) True] by (cases e2) simp_all
  have "save env p c r = updateRepositoryTag env r2"
    unfolding save_valid[OF assms(1) True] by (simp add: m w e1 e2)
  then show ?thesis
    using m w e1 e2 assms(2) by simp
qed

lemma storeSources_loop_preserves:
  assumes "\<And>p c r. p_matchQuality p = q \<Longrightarrow> p_chainId p = chainId \<Longrightarrow>
             p_address p = address \<Longrightarrow> P r \<Longrightarrow> P (snd (save env p c r))"
    and "P r"
  shows "P (snd (snd (storeSources_loop env q chainId address sources pt r)))"
  using assms(2)
proof (induction sources arbitrary: pt r)
  case Nil
  then show ?case by simp
next
  case (Cons x sources)
  obtain sourcePath body where x: "x = (sourcePath, body)" by (cases x)
  obtain sp op where sp: "sanitizePath env sourcePath = (sp, op)" by (cases "sanitizePath env sourcePath")
  let ?p = "\<lparr>p_matchQuality = q, p_chainId = chainId, p_address = address,
              p_source = True, p_fileName = sp\<rparr>"
  have P': "P (snd (save env ?p (Plain body) r))"
    using assms(1)[of ?p r "Plain body"] Cons.prems by simp
  show ?case
  proof (cases "save env ?p (Plain body) r")
    case (Pair e r')
    with P' have "P r'" by simp
    with Pair show ?thesis
      using Cons.IH[of r'] by (cases e) (simp_all add: x sp Let_def)
  qed
qed

lemma storeSources_preserves:
  assumes "\<And>p c r. p_matchQuality p = q \<Longrightarrow> p_chainId p = chainId \<Longrightarrow>
             p_address p = address \<Longrightarrow> P r \<Longrightarrow> P (snd (save env p c r))"
    and "P r"
  shows "P (snd (storeSources env q chainId address sources r))"
proof -
  have L: "P (snd (snd (storeSources_loop env q chainId address sources [] r)))"
    using assms by (rule storeSources_loop_preserves)
  obtain e pt r' where res: "storeSources_loop env q chainId address sources [] r = (e, pt, r')"
    by (cases "storeSources_loop env q chainId address sources [] r") auto
  with L have "P r'" by simp
  then show ?thesis
    using assms(1) by (cases e) (simp_all add: storeSources_def res)
qed

lemma storeArtifacts_preserves:
  assumes save: "\<And>p c r. p_matchQuality p = q \<Longrightarrow> p_chainId p = m_chainId m \<Longrightarrow>
             p_address p = m_address m \<Longrightarrow> P r \<Longrightarrow> P (snd (save env p c r))"
    and "P r"
  shows "P (snd (storeArtifacts env q contract m r))"
  unfolding storeArtifacts_def
  apply (rule andThen_preserves)
   apply (rule storeSources_preserves[where P = P, OF save]; simp add: assms)
  apply (rule andThen_preserves)
   apply (simp add: storeJSON_def save)
  apply (rule andThen_preserves)
   apply (simp add: storeTxt_def save split: option.splits)
  apply (rule andThen_preserves)
   apply (simp add: storeTxt_def save split: option.splits)
  apply (rule andThen_preserves)
   apply (simp add: storeJSON_def save split: option.splits)
  apply (simp add: storeJSON_def save split: option.splits)
  done

lemma storeSources_loop_error:
  assumes "e_getAddress env address = Some a"
    and "fst (storeSources_loop env q chainId address sources pt r) = Some e"
  shows "\<exists>code. e = SystemError code"
  using assms(2)
proof (induction sources arbitrary: pt r)
  case Nil
  then show ?case by simp
next
  case (Cons x sources)
  obtain sourcePath body where x: "x = (sourcePath, body)" by (cases x)
  obtain sp op where sp: "sanitizePath env sourcePath = (sp, op)" by (cases "sanitizePath env sourcePath")
  let ?p = "\<lparr>p_matchQuality = q, p_chainId = chainId, p_address = address,
              p_source = True, p_fileName = sp\<rparr>"
  show ?case
  proof (cases "save env ?p (Plain body) r")
    case (Pair e' r')
    show ?thesis
    proof (cases e')
      case None
      then show ?thesis
        using Cons.prems Pair Cons.IH by (simp add: x sp Let_def)
    next
      case (Some err)
      then have "e = err" using Cons.prems Pair by (simp add: x sp Let_def)
      then show ?thesis
        using save_error[of env ?p a "Plain body" r err] assms(1) Pair Some by simp
    qed
  qed
qed

lemma storeSources_error:
  assumes "e_getAddress env address = Some a"
    and "fst (storeSources env q chainId address sources r) = Some e"
  shows "\<exists>code. e = SystemError code"
proof -
  obtain e' pt r' where res: "storeSources_loop env q chainId address sources [] r = (e', pt, r')"
    by (cases "storeSources_loop env q chainId address sources [] r") auto
  show ?thesis
  proof (cases e')
    case (Some err)
    then show ?thesis
      using assms(2) res storeSources_loop_error[OF assms(1), of q chainId sources "[]" r err]
      by (simp add: storeSources_def)
  next
    case None
    then show ?thesis
      using assms res
        save_error[of env "\<lparr>p_matchQuality = q, p_chainId = chainId, p_address = address,
                           p_source = False, p_fileName = ''path-translation.json''\<rparr>" a _ r' e]
      by (simp add: storeSources_def split: if_splits)
  qed
qed

lemma storeArtifacts_error:
  assumes a: "e_getAddress env (m_address m) = Some a"
    and "fst (storeArtifacts env q contract m r) = Some e"
  shows "\<exists>code. e = SystemError code"
proof -
  have sv: "\<And>n c r. fst (save env \<lparr>p_matchQuality = q, p_chainId = m_chainId m,
          p_address = m_address m, p_source = False, p_fileName = n\<rparr> c r) = Some e \<Longrightarrow>
          \<exists>code. e = SystemError code"
    by (erule save_error[rotated]) (simp add: a)
  show ?thesis
    using assms(2) unfolding storeArtifacts_def
    apply -
    apply (erule andThen_error)
     apply (erule storeSources_error[OF a])
    apply (erule andThen_error)
     apply (simp add: storeJSON_def sv)
    apply (erule andThen_error)
     apply (auto simp: storeTxt_def sv split: option.splits if_splits)[1]
    apply (erule andThen_error)
     apply (auto simp: storeTxt_def sv split: option.splits if_splits)[1]
    apply (erule andThen_error)
     apply (auto simp: storeJSON_def sv split: option.splits if_splits)[1]
    apply (auto simp: storeJSON_def sv split: option.splits if_splits)[1]
    done
qed

text \<open>
  What a successful \<open>storeArtifacts\<close> has established: whatever the save of
  \<^verbatim>\<open>metadata.json\<close> establishes and the saves after it keep.
\<close>

lemma storeArtifacts_established:
  assumes ok: "fst (storeArtifacts env q contract m r) = None"
    and est: "\<And>r. fst (save env \<lparr>p_matchQuality = q, p_chainId = m_chainId m,
          p_address = m_address m, p_source = False, p_fileName = ''metadata.json''\<rparr>
          (Stringified (cc_metadata contract)) r) = None \<Longrightarrow>
        P (snd (save env \<lparr>p_matchQuality = q, p_chainId = m_chainId m,
          p_address = m_address m, p_source = False, p_fileName = ''metadata.json''\<rparr>
          (Stringified (cc_metadata contract)) r))"
    and keep: "\<And>n c r. n \<noteq> ''metadata.json'' \<Longrightarrow> n \<noteq> [] \<Longrightarrow> P r \<Longrightarrow>
        fst (save env \<lparr>p_matchQuality = q, p_chainId = m_chainId m,
          p_address = m_address m, p_source = False, p_fileName = n\<rparr> c r) = None \<Longrightarrow>
        P (snd (save env \<lparr>p_matchQuality = q, p_chainId = m_chainId m,
          p_address = m_address m, p_source = False, p_fileName = n\<rparr> c r))"
  shows "P (snd (storeArtifacts env q contract m r))"
  using ok unfolding storeArtifacts_def
  apply -
  apply (erule andThen_step[where P = "\<lambda>_. True"])
   apply simp
  apply (erule andThen_step[where P = P])
   apply (simp add: storeJSON_def est)
  apply (erule andThen_step[where P = P])
   apply (auto simp: storeTxt_def keep split: option.splits if_splits)[1]
  apply (erule andThen_step[where P = P])
   apply (auto simp: storeTxt_def keep split: option.splits if_splits)[1]
  apply (erule andThen_step[where P = P])
   apply (auto simp: storeJSON_def keep split: option.splits if_splits)[1]
  apply (auto simp: storeJSON_def keep split: option.splits if_splits)[1]
  done

lemma manifestWrites_append:
  "manifestWrites (xs @ ys) = manifestWrites xs @ manifestWrites ys"
  by (induction xs rule: manifestWrites.induct) (auto split: option.splits)

lemma stat_mkdirSync [simp]: "stat (snd (mkdirSync env d s n r)) loc = stat r loc"
  by (auto simp: mkdirSync_def stat_def Let_def
      split: option.splits prod.splits bool.splits location.splits)

lemma stat_updateRepositoryTag [simp]: "stat (snd (updateRepositoryTag env r)) loc = stat r loc"
  by (auto simp: updateRepositoryTag_def stat_def Let_def readClock_def
      split: option.splits prod.splits location.splits)

lemma stat_writeFileSync_other:
  "loc \<noteq> ContractFile d s n \<Longrightarrow> stat (snd (writeFileSync env d s n c r)) loc = stat r loc"
  by (auto simp: writeFileSync_def stat_def Let_def readClock_def update_conv'
      split: option.splits prod.splits location.splits)

lemma stat_writeFileSync_same:
  "writeFileSync env d s n c r = (None, r') \<Longrightarrow>
   map_option f_content (stat r' (ContractFile d s n)) = Some c"
  by (auto simp: writeFileSync_def stat_def Let_def readClock_def update_conv'
      split: option.splits prod.splits)



lemma tagInv_reads:
  assumes "clockNeverGoesBack env" and "tagInv env r"
  shows "tagInv env (r\<lparr>r_clockReads := Suc (r_clockReads r)\<rparr>)"
proof -
  have "e_clock env (r_clockReads r) \<le> e_clock env (Suc (r_clockReads r))"
    using assms(1) by (simp add: clockNeverGoesBack_def)
  then show ?thesis
    using assms(2) by (fastforce simp: tagInv_def)
qed

lemma mkdirSync_tagInv: "tagInv env r \<Longrightarrow> tagInv env (snd (mkdirSync env d s n r))"
  by (auto simp: mkdirSync_def Let_def tagInv_def manifestWrites_append
      split: option.splits prod.splits bool.splits)

lemma writeFileSync_tagInv:
  assumes "clockNeverGoesBack env" and "tagInv env r"
  shows "tagInv env (snd (writeFileSync env d s n c r))"
proof (cases "e_writeRefused env r (ContractFile d s n)")
  case (Some code)
  then show ?thesis using assms(2) by (simp add: writeFileSync_def)
next
  case None
  have "tagInv env (r\<lparr>r_clockReads := Suc (r_clockReads r)\<rparr>)"
    using assms by (rule tagInv_reads)
  then show ?thesis
    using None by (simp add: writeFileSync_def readClock_def Let_def tagInv_def
        manifestWrites_append)
qed

lemma updateRepositoryTag_tagInv:
  assumes "clockNeverGoesBack env" and "tagInv env r"
  shows "tagInv env (snd (updateRepositoryTag env r))"
proof -
  have le: "e_clock env (r_clockReads r) \<le> e_clock env (Suc (r_clockReads r))"
    using assms(1) by (simp add: clockNeverGoesBack_def)
  have r1: "tagInv env (r\<lparr>r_clockReads := Suc (r_clockReads r)\<rparr>)"
    using assms by (rule tagInv_reads)
  show ?thesis
  proof (cases "e_writeRefused env (r\<lparr>r_clockReads := Suc (r_clockReads r)\<rparr>) ManifestFile")
    case (Some code)
    then show ?thesis using r1 by (simp add: updateRepositoryTag_def readClock_def Let_def)
  next
    case None
    then show ?thesis
      using assms(2) le
      by (fastforce simp: updateRepositoryTag_def readClock_def Let_def tagInv_def
          manifestWrites_append sorted_append)
  qed
qed

lemma save_tagInv:
  assumes "clockNeverGoesBack env" and "tagInv env r"
  shows "tagInv env (snd (save env p c r))"
  using assms(2)
  by (rule save_preserves)
     (simp_all add: mkdirSync_tagInv writeFileSync_tagInv updateRepositoryTag_tagInv assms(1))

lemma mkdirSync_manifestInv: "manifestInv r \<Longrightarrow> manifestInv (snd (mkdirSync env d s n r))"
  by (auto simp: mkdirSync_def Let_def manifestInv_def manifestTimestamp_def
      lastManifestWrite_def manifestWrites_append
      split: option.splits prod.splits bool.splits)

lemma writeFileSync_manifestInv:
  "manifestInv r \<Longrightarrow> manifestInv (snd (writeFileSync env d s n c r))"
  by (auto simp: writeFileSync_def readClock_def Let_def manifestInv_def manifestTimestamp_def
      lastManifestWrite_def manifestWrites_append
      split: option.splits prod.splits)

lemma updateRepositoryTag_manifestInv:
  "manifestInv r \<Longrightarrow> manifestInv (snd (updateRepositoryTag env r))"
  by (auto simp: updateRepositoryTag_def readClock_def Let_def manifestInv_def
      manifestTimestamp_def lastManifestWrite_def manifestWrites_append
      split: option.splits prod.splits list.splits)

lemma save_manifestInv: "manifestInv r \<Longrightarrow> manifestInv (snd (save env p c r))"
  by (rule save_preserves)
     (simp_all add: mkdirSync_manifestInv writeFileSync_manifestInv
        updateRepositoryTag_manifestInv)

lemma save_success_content:
  assumes "e_getAddress env (p_address p) = Some a" and "fst (save env p c r) = None"
  shows "fileContent (snd (save env p c r))
           (ContractFile (p_matchQuality p, p_chainId p, a) (p_source p) (p_fileName p)) = Some c"
proof -
  obtain r1 r2 where
    w: "writeFileSync env (p_matchQuality p, p_chainId p, a) (p_source p) (p_fileName p) c r1 =
       (None, r2)"
    and sv: "save env p c r = updateRepositoryTag env r2"
    using save_success[OF assms] by blast
  show ?thesis
    using stat_writeFileSync_same[OF w] by (simp add: sv fileContent_def)
qed

lemma save_fileContent_other:
  assumes "e_getAddress env (p_address p) = Some a"
    and "(d, s, n) \<noteq> ((p_matchQuality p, p_chainId p, a), p_source p, p_fileName p)"
  shows "fileContent (snd (save env p c r)) (ContractFile d s n) = fileContent r (ContractFile d s n)"
proof (cases "p_source p \<or> p_fileName p \<noteq> []")
  case False
  then show ?thesis using assms(1) by (simp add: save_directory)
next
  case True
  have "stat (snd (save env p c r)) (ContractFile d s n) = stat r (ContractFile d s n)"
    unfolding save_valid[OF assms(1) True]
    apply (rule andThen_preserves[where P = "\<lambda>x. stat x (ContractFile d s n) =
              stat r (ContractFile d s n)"])
     apply simp
    apply (rule andThen_preserves)
    using assms(2) apply (simp add: stat_writeFileSync_other)
    apply simp
    done
  then show ?thesis by (simp add: fileContent_def)
qed

lemma updateRepositoryTag_tagOf:
  "fst (updateRepositoryTag env r) = None \<Longrightarrow>
   r_manifest (snd (updateRepositoryTag env r)) = Some (tagOf env (snd (updateRepositoryTag env r)))"
  by (auto simp: updateRepositoryTag_def readClock_def Let_def tagOf_def
      split: option.splits prod.splits)

lemma save_success_tag:
  assumes "fst (save env p c r) = None"
  shows "r_manifest (snd (save env p c r)) = Some (tagOf env (snd (save env p c r)))"
proof (cases "e_getAddress env (p_address p)")
  case None
  then show ?thesis using assms by (simp add: save_invalid)
next
  case (Some a)
  obtain r1 r2 where "fst (updateRepositoryTag env r2) = None"
      "save env p c r = updateRepositoryTag env r2"
    using save_success[OF Some assms] by blast
  then show ?thesis by (simp add: updateRepositoryTag_tagOf)
qed

lemma storeSources_loop_invalid:
  assumes "e_getAddress env address = None"
  shows "storeSources env q chainId address sources r =
           (if sources = [] then (None, r) else (Some (Error ''invalid address''), r))"
proof (cases sources)
  case Nil
  then show ?thesis by (simp add: storeSources_def)
next
  case (Cons x xs)
  obtain sourcePath body where x: "x = (sourcePath, body)" by (cases x)
  show ?thesis
    using assms
    by (simp add: Cons x storeSources_def save_invalid Let_def split: prod.splits)
qed

lemma storeArtifacts_invalid:
  assumes "e_getAddress env (m_address m) = None"
  shows "storeArtifacts env q contract m r = (Some (Error ''invalid address''), r)"
  using assms
  by (simp add: storeArtifacts_def storeSources_loop_invalid storeJSON_def save_invalid)

lemma storeArtifacts_metadata:
  assumes "e_getAddress env (m_address m) = Some a"
    and "fst (storeArtifacts env q contract m r) = None"
  shows "fileContent (snd (storeArtifacts env q contract m r))
           (ContractFile (q, m_chainId m, a) False ''metadata.json'') =
         Some (Stringified (cc_metadata contract))"
proof (rule storeArtifacts_established[OF assms(2)])
  fix x :: repository
  let ?pm = "\<lparr>p_matchQuality = q, p_chainId = m_chainId m, p_address = m_address m,
               p_source = False, p_fileName = ''metadata.json''\<rparr>"
  assume "fst (save env ?pm (Stringified (cc_metadata contract)) x) = None"
  then show "fileContent (snd (save env ?pm (Stringified (cc_metadata contract)) x))
      (ContractFile (q, m_chainId m, a) False ''metadata.json'') =
      Some (Stringified (cc_metadata contract))"
    using save_success_content[of env ?pm a "Stringified (cc_metadata contract)" x] assms(1)
    by simp
next
  fix n c and x :: repository
  let ?p = "\<lparr>p_matchQuality = q, p_chainId = m_chainId m, p_address = m_address m,
              p_source = False, p_fileName = n\<rparr>"
  assume "n \<noteq> ''metadata.json''"
    and "fileContent x (ContractFile (q, m_chainId m, a) False ''metadata.json'') =
           Some (Stringified (cc_metadata contract))"
  then show "fileContent (snd (save env ?p c x))
      (ContractFile (q, m_chainId m, a) False ''metadata.json'') =
      Some (Stringified (cc_metadata contract))"
    using save_fileContent_other[of env ?p a "(q, m_chainId m, a)" False "''metadata.json''" c x]
      assms(1)
    by simp
qed

lemma storeArtifacts_tagOf:
  assumes "fst (storeArtifacts env q contract m r) = None"
  shows "r_manifest (snd (storeArtifacts env q contract m r)) =
           Some (tagOf env (snd (storeArtifacts env q contract m r)))"
  by (rule storeArtifacts_established[OF assms]) (simp_all add: save_success_tag)

lemma deletePartialIfExists_valid:
  assumes "e_getAddress env address = Some a"
  shows "deletePartialIfExists env chainId address r =
           (None, if r_dirs r (PartialQuality, chainId, a) \<noteq> None
                  then r\<lparr>r_dirs := (r_dirs r)((PartialQuality, chainId, a) := None),
                         r_ops := r_ops r @ [RmdirSync (PartialQuality, chainId, a)]\<rparr>
                  else r)"
  using assms
  by (simp add: deletePartialIfExists_def generateAbsoluteFilePath_def existsSync_def)

lemma deletePartialIfExists_invalid:
  assumes "e_getAddress env address = None"
  shows "deletePartialIfExists env chainId address r = (Some (Error ''invalid address''), r)"
  using assms by (simp add: deletePartialIfExists_def generateAbsoluteFilePath_def)

lemma getMatchStatus_perfect:
  "m_runtimeMatch m = Some Perfect \<or> m_creationMatch m = Some Perfect \<Longrightarrow>
   statusToMatchQuality (getMatchStatus m) = Inr Full"
  by (auto simp: getMatchStatus_def statusToMatchQuality_def)

lemma getMatchStatus_partial:
  "\<not> (m_runtimeMatch m = Some Perfect \<or> m_creationMatch m = Some Perfect) \<Longrightarrow>
   m_runtimeMatch m = Some Partial \<or> m_creationMatch m = Some Partial \<Longrightarrow>
   statusToMatchQuality (getMatchStatus m) = Inr PartialQuality"
  by (auto simp: getMatchStatus_def statusToMatchQuality_def)

text \<open>
  A match that is stored: with an address that \<^verbatim>\<open>getAddress\<close> accepts, \<open>storeMatch\<close> is
  the removal of the partial match, for a perfect match, followed by \<open>storeArtifacts\<close>.
\<close>

lemma storeMatch_perfect:
  assumes "m_address m \<noteq> []"
    and "m_runtimeMatch m = Some Perfect \<or> m_creationMatch m = Some Perfect"
    and "e_getAddress env (m_address m) = Some a"
  shows "storeMatch env contract m r =
           outcome (storeArtifacts env Full contract m
                      (snd (deletePartialIfExists env (m_chainId m) (m_address m) r)))"
  using assms getMatchStatus_perfect[OF assms(2)]
  by (auto simp: storeMatch_def deletePartialIfExists_valid outcome_def
      split: prod.splits option.splits)

lemma storeMatch_partial:
  assumes "m_address m \<noteq> []"
    and "\<not> (m_runtimeMatch m = Some Perfect \<or> m_creationMatch m = Some Perfect)"
    and "m_runtimeMatch m = Some Partial \<or> m_creationMatch m = Some Partial"
    and "e_getAddress env (m_address m) = Some a"
  shows "storeMatch env contract m r = outcome (storeArtifacts env PartialQuality contract m r)"
  using assms getMatchStatus_partial[OF assms(2,3)]
  by (auto simp: storeMatch_def outcome_def split: prod.splits option.splits)

lemma storeMatch_invalid_address:
  assumes "m_address m \<noteq> []"
    and "m_runtimeMatch m = Some Perfect \<or> m_runtimeMatch m = Some Partial \<or>
         m_creationMatch m = Some Perfect \<or> m_creationMatch m = Some Partial"
    and "e_getAddress env (m_address m) = None"
  shows "storeMatch env contract m r = (Inl (Error ''invalid address''), r)"
proof (cases "m_runtimeMatch m = Some Perfect \<or> m_creationMatch m = Some Perfect")
  case True
  then show ?thesis
    using assms by (auto simp: storeMatch_def deletePartialIfExists_invalid)
next
  case False
  then show ?thesis
    using assms getMatchStatus_partial[OF False]
    by (auto simp: storeMatch_def storeArtifacts_invalid)
qed

text \<open>
  A stored match with an accepted address: the call succeeds or throws an error of the
  file system, and after a success \<^verbatim>\<open>metadata.json\<close> holds the metadata and the manifest
  the last clock reading.
\<close>

lemma storeMatch_stored:
  assumes "m_address m \<noteq> []"
    and "m_runtimeMatch m = Some Perfect \<or> m_runtimeMatch m = Some Partial \<or>
         m_creationMatch m = Some Perfect \<or> m_creationMatch m = Some Partial"
    and "e_getAddress env (m_address m) = Some a"
  shows "(fst (storeMatch env contract m r) = Inr None \<or>
          (\<exists>code. fst (storeMatch env contract m r) = Inl (SystemError code))) \<and>
         (fst (storeMatch env contract m r) = Inr None \<longrightarrow>
            fileContent (snd (storeMatch env contract m r))
              (ContractFile
                 (if m_runtimeMatch m = Some Perfect \<or> m_creationMatch m = Some Perfect
                  then Full else PartialQuality, m_chainId m, a)
                 False ''metadata.json'') = Some (Stringified (cc_metadata contract)) \<and>
            r_manifest (snd (storeMatch env contract m r)) =
              Some (tagOf env (snd (storeMatch env contract m r))))"
proof (cases "m_runtimeMatch m = Some Perfect \<or> m_creationMatch m = Some Perfect")
  case True
  let ?x = "storeArtifacts env Full contract m
              (snd (deletePartialIfExists env (m_chainId m) (m_address m) r))"
  have sm: "storeMatch env contract m r = outcome ?x"
    using assms(1) True assms(3) by (rule storeMatch_perfect)
  show ?thesis
  proof (cases "fst ?x")
    case None
    then show ?thesis
      using True sm storeArtifacts_metadata[OF assms(3) None] storeArtifacts_tagOf[OF None]
      by (simp add: outcome_def)
  next
    case (Some e)
    then show ?thesis
      using sm storeArtifacts_error[OF assms(3) Some] by (auto simp: outcome_def)
  qed
next
  case False
  let ?x = "storeArtifacts env PartialQuality contract m r"
  have sm: "storeMatch env contract m r = outcome ?x"
    using assms False by (intro storeMatch_partial) auto
  show ?thesis
  proof (cases "fst ?x")
    case None
    then show ?thesis
      using False sm storeArtifacts_metadata[OF assms(3) None] storeArtifacts_tagOf[OF None]
      by (simp add: outcome_def)
  next
    case (Some e)
    then show ?thesis
      using sm storeArtifacts_error[OF assms(3) Some] by (auto simp: outcome_def)
  qed
qed

text \<open>
  C10, as the code has it. The three cases of \<open>storeMatch\<close>, in the order of its \<^verbatim>\<open>if\<close>,
  \<^verbatim>\<open>else if\<close>, \<^verbatim>\<open>else\<close>. A match is stored when its address is set and its runtimeMatch or
  its creationMatch is perfect or partial. For any other match the repository is left as
  it was: when the runtimeMatch is extra-file-input-bug the match is returned as it came,
  otherwise the call throws \<^verbatim>\<open>Unknown match status\<close>. So the repository changes only for a
  match of the first kind. When the call throws, the repository is as it was before the
  call unless the error is one of the file system (an address that \<^verbatim>\<open>getAddress\<close> refuses
  throws before the first write). A match of the first kind with an accepted address is
  stored unless the file system throws, and after a successful call \<^verbatim>\<open>metadata.json\<close> holds
  the contract's metadata, under \<^verbatim>\<open>full_match\<close> when one of the two fields is perfect and
  under \<^verbatim>\<open>partial_match\<close> otherwise.
\<close>

theorem storeMatch_outcomes:
  "(\<not> (m_address m \<noteq> [] \<and>
        (m_runtimeMatch m = Some Perfect \<or> m_runtimeMatch m = Some Partial \<or>
         m_creationMatch m = Some Perfect \<or> m_creationMatch m = Some Partial)) \<longrightarrow>
      storeMatch env contract m r =
        (if m_runtimeMatch m = Some ExtraFileInputBug then (Inr (Some m), r)
         else (Inl (Error (''Unknown match status: '' @ status_text (m_runtimeMatch m))), r))) \<and>
   (snd (storeMatch env contract m r) \<noteq> r \<longrightarrow>
      m_address m \<noteq> [] \<and>
      (m_runtimeMatch m = Some Perfect \<or> m_runtimeMatch m = Some Partial \<or>
       m_creationMatch m = Some Perfect \<or> m_creationMatch m = Some Partial)) \<and>
   (\<forall>e. fst (storeMatch env contract m r) = Inl e \<longrightarrow>
      (\<exists>code. e = SystemError code) \<or> snd (storeMatch env contract m r) = r) \<and>
   (m_address m \<noteq> [] \<and>
    (m_runtimeMatch m = Some Perfect \<or> m_runtimeMatch m = Some Partial \<or>
     m_creationMatch m = Some Perfect \<or> m_creationMatch m = Some Partial) \<and>
    e_getAddress env (m_address m) = Some a \<longrightarrow>
      (fst (storeMatch env contract m r) = Inr None \<or>
       (\<exists>code. fst (storeMatch env contract m r) = Inl (SystemError code))) \<and>
      (fst (storeMatch env contract m r) = Inr None \<longrightarrow>
         fileContent (snd (storeMatch env contract m r))
           (ContractFile
              (if m_runtimeMatch m = Some Perfect \<or> m_creationMatch m = Some Perfect
               then Full else PartialQuality, m_chainId m, a)
              False ''metadata.json'') = Some (Stringified (cc_metadata contract))))"
proof (intro conjI impI allI)
  assume "\<not> (m_address m \<noteq> [] \<and>
        (m_runtimeMatch m = Some Perfect \<or> m_runtimeMatch m = Some Partial \<or>
         m_creationMatch m = Some Perfect \<or> m_creationMatch m = Some Partial))"
  then show "storeMatch env contract m r =
        (if m_runtimeMatch m = Some ExtraFileInputBug then (Inr (Some m), r)
         else (Inl (Error (''Unknown match status: '' @ status_text (m_runtimeMatch m))), r))"
    by (auto simp: storeMatch_def)
next
  assume "snd (storeMatch env contract m r) \<noteq> r"
  then show "m_address m \<noteq> []"
    by (auto simp: storeMatch_def split: if_splits)
next
  assume "snd (storeMatch env contract m r) \<noteq> r"
  then show "m_runtimeMatch m = Some Perfect \<or> m_runtimeMatch m = Some Partial \<or>
       m_creationMatch m = Some Perfect \<or> m_creationMatch m = Some Partial"
    by (auto simp: storeMatch_def split: if_splits)
next
  fix e
  assume e: "fst (storeMatch env contract m r) = Inl e"
  show "(\<exists>code. e = SystemError code) \<or> snd (storeMatch env contract m r) = r"
  proof (cases "m_address m \<noteq> [] \<and>
        (m_runtimeMatch m = Some Perfect \<or> m_runtimeMatch m = Some Partial \<or>
         m_creationMatch m = Some Perfect \<or> m_creationMatch m = Some Partial)")
    case False
    then show ?thesis by (auto simp: storeMatch_def)
  next
    case True
    show ?thesis
    proof (cases "e_getAddress env (m_address m)")
      case None
      then show ?thesis using True storeMatch_invalid_address[of m env contract r] by simp
    next
      case (Some a)
      then show ?thesis
        using True e storeMatch_stored[of m env a contract r] by auto
    qed
  qed
next
  assume a: "m_address m \<noteq> [] \<and>
    (m_runtimeMatch m = Some Perfect \<or> m_runtimeMatch m = Some Partial \<or>
     m_creationMatch m = Some Perfect \<or> m_creationMatch m = Some Partial) \<and>
    e_getAddress env (m_address m) = Some a"
  then show "fst (storeMatch env contract m r) = Inr None \<or>
       (\<exists>code. fst (storeMatch env contract m r) = Inl (SystemError code))"
    using storeMatch_stored[of m env a contract r] by blast
next
  assume a: "m_address m \<noteq> [] \<and>
    (m_runtimeMatch m = Some Perfect \<or> m_runtimeMatch m = Some Partial \<or>
     m_creationMatch m = Some Perfect \<or> m_creationMatch m = Some Partial) \<and>
    e_getAddress env (m_address m) = Some a"
    and ok: "fst (storeMatch env contract m r) = Inr None"
  then show "fileContent (snd (storeMatch env contract m r))
        (ContractFile
           (if m_runtimeMatch m = Some Perfect \<or> m_creationMatch m = Some Perfect
            then Full else PartialQuality, m_chainId m, a)
           False ''metadata.json'') = Some (Stringified (cc_metadata contract))"
    using storeMatch_stored[of m env a contract r] by blast
qed


lemma deletePartialIfExists_tagInv:
  "tagInv env r \<Longrightarrow> tagInv env (snd (deletePartialIfExists env chainId address r))"
  by (auto simp: deletePartialIfExists_def tagInv_def manifestWrites_append existsSync_def
      split: sum.splits location.splits)

lemma storeMatch_preserves:
  assumes del: "P (snd (deletePartialIfExists env (m_chainId m) (m_address m) r))"
    and art: "\<And>q x. P x \<Longrightarrow> P (snd (storeArtifacts env q contract m x))"
    and "P r"
  shows "P (snd (storeMatch env contract m r))"
proof -
  have del': "\<And>e1 r1. deletePartialIfExists env (m_chainId m) (m_address m) r = (e1, r1) \<Longrightarrow> P r1"
    using del by (metis snd_conv)
  have art': "\<And>q x e2 r2. P x \<Longrightarrow> storeArtifacts env q contract m x = (e2, r2) \<Longrightarrow> P r2"
    using art by (metis snd_conv)
  show ?thesis
    using assms(3)
    by (auto simp: storeMatch_def split: prod.splits option.splits sum.splits
        intro: del' art' dest: del')
qed

lemma storeMatch_tagInv:
  assumes "clockNeverGoesBack env" and "tagInv env r"
  shows "tagInv env (snd (storeMatch env contract m r))"
proof (rule storeMatch_preserves)
  show "tagInv env (snd (deletePartialIfExists env (m_chainId m) (m_address m) r))"
    using assms(2) by (rule deletePartialIfExists_tagInv)
  show "\<And>q x. tagInv env x \<Longrightarrow> tagInv env (snd (storeArtifacts env q contract m x))"
    by (rule storeArtifacts_preserves[where P = "tagInv env"]) (simp_all add: save_tagInv assms(1))
  show "tagInv env r" by (rule assms(2))
qed

lemma storeMatches_tagInv:
  assumes "clockNeverGoesBack env" and "tagInv env r"
  shows "tagInv env (storeMatches env calls r)"
  using assms(2)
proof (induction calls arbitrary: r)
  case Nil
  then show ?case by simp
next
  case (Cons x calls)
  obtain contract m where x: "x = (contract, m)" by (cases x)
  show ?case
    using Cons storeMatch_tagInv[OF assms(1), of r contract m] by (simp add: x)
qed

lemma deletePartialIfExists_manifestInv:
  "manifestInv r \<Longrightarrow> manifestInv (snd (deletePartialIfExists env chainId address r))"
  by (auto simp: deletePartialIfExists_def manifestInv_def manifestTimestamp_def
      lastManifestWrite_def manifestWrites_append existsSync_def
      split: sum.splits location.splits)

lemma storeMatches_manifestInv:
  "manifestInv r \<Longrightarrow> manifestInv (storeMatches env calls r)"
proof (induction calls arbitrary: r)
  case Nil
  then show ?case by simp
next
  case (Cons x calls)
  obtain contract m where x: "x = (contract, m)" by (cases x)
  have "manifestInv (snd (storeMatch env contract m r))"
  proof (rule storeMatch_preserves)
    show "manifestInv (snd (deletePartialIfExists env (m_chainId m) (m_address m) r))"
      using Cons.prems by (rule deletePartialIfExists_manifestInv)
    show "\<And>q x. manifestInv x \<Longrightarrow> manifestInv (snd (storeArtifacts env q contract m x))"
      by (rule storeArtifacts_preserves[where P = manifestInv]) (simp_all add: save_manifestInv)
    show "manifestInv r" by (rule Cons.prems)
  qed
  then show ?case using Cons.IH by (simp add: x)
qed

lemma storeMatch_success:
  assumes "fst (storeMatch env contract m r) = Inr None"
  shows "\<exists>a. e_getAddress env (m_address m) = Some a \<and> m_address m \<noteq> [] \<and>
             (m_runtimeMatch m = Some Perfect \<or> m_runtimeMatch m = Some Partial \<or>
              m_creationMatch m = Some Perfect \<or> m_creationMatch m = Some Partial)"
proof (cases "m_address m \<noteq> [] \<and>
        (m_runtimeMatch m = Some Perfect \<or> m_runtimeMatch m = Some Partial \<or>
         m_creationMatch m = Some Perfect \<or> m_creationMatch m = Some Partial)")
  case False
  then show ?thesis using assms by (auto simp: storeMatch_def split: if_splits)
next
  case True
  show ?thesis
  proof (cases "e_getAddress env (m_address m)")
    case None
    then show ?thesis using True assms storeMatch_invalid_address[of m env contract r] by simp
  next
    case (Some a)
    then show ?thesis using True by simp
  qed
qed

text \<open>
  C8, as the code has it. A successful \<open>storeMatch\<close> leaves \<^verbatim>\<open>manifest.json\<close> with
  \<^verbatim>\<open>{timestamp: t}\<close>, \<open>t\<close> being the last reading of the wall clock made during the call.
  Over any sequence of calls on a fresh repository the manifest holds the timestamp
  written last, and when the wall clock never goes back the timestamps written to the
  manifest are in non-decreasing order.
\<close>

theorem manifest_follows_clock:
  "(fst (storeMatch env contract m r) = Inr None \<longrightarrow>
      r_manifest (snd (storeMatch env contract m r)) =
        Some (Stringified (JObject [(''timestamp'',
                JNumber (e_clock env (r_clockReads (snd (storeMatch env contract m r)) - 1)))]))) \<and>
   manifestTimestamp (storeMatches env calls emptyRepository) =
     lastManifestWrite (r_ops (storeMatches env calls emptyRepository)) \<and>
   (clockNeverGoesBack env \<longrightarrow>
      sorted (manifestWrites (r_ops (storeMatches env calls emptyRepository))))"
proof (intro conjI impI)
  assume ok: "fst (storeMatch env contract m r) = Inr None"
  then obtain a where a: "e_getAddress env (m_address m) = Some a" "m_address m \<noteq> []"
      "m_runtimeMatch m = Some Perfect \<or> m_runtimeMatch m = Some Partial \<or>
       m_creationMatch m = Some Perfect \<or> m_creationMatch m = Some Partial"
    using storeMatch_success by blast
  show "r_manifest (snd (storeMatch env contract m r)) =
        Some (Stringified (JObject [(''timestamp'',
                JNumber (e_clock env (r_clockReads (snd (storeMatch env contract m r)) - 1)))]))"
    using a ok storeMatch_stored[of m env a contract r] by (simp add: tagOf_def)
next
  have "manifestInv emptyRepository"
    by (simp add: manifestInv_def emptyRepository_def manifestTimestamp_def
        lastManifestWrite_def)
  then have "manifestInv (storeMatches env calls emptyRepository)"
    by (rule storeMatches_manifestInv)
  then show "manifestTimestamp (storeMatches env calls emptyRepository) =
     lastManifestWrite (r_ops (storeMatches env calls emptyRepository))"
    by (simp add: manifestInv_def)
next
  assume mono: "clockNeverGoesBack env"
  have "tagInv env emptyRepository"
    by (simp add: tagInv_def emptyRepository_def)
  with mono have "tagInv env (storeMatches env calls emptyRepository)"
    by (rule storeMatches_tagInv)
  then show "sorted (manifestWrites (r_ops (storeMatches env calls emptyRepository)))"
    by (simp add: tagInv_def)
qed

lemmas store_eval =
  storeMatch_def storeArtifacts_def storeSources_def storeJSON_def storeTxt_def save_def
  generateAbsoluteFilePath_def deletePartialIfExists_def existsSync_def
  statusToMatchQuality_def getMatchStatus_def sanitizePath_def updateRepositoryTag_def
  writeFileSync_def mkdirSync_def readClock_def andThen_def Let_def
  posixMkdirRefused_def posixWriteRefused_def components_def filesIn_def liesBelow_def
  exampleEnv_def exampleContract_def exampleMatch_def emptyRepository_def



text \<open>
  C8, against the wording of the specification: the timestamp is the reading of the wall clock and is not compared
  with the one in the manifest. When the clock is set back between two stores, the
  manifest timestamp after the second store is smaller than after the first.
\<close>

theorem manifest_steps_back_with_clock:
  "manifestTimestamp
     (storeMatches steppingBackEnv
        [(exampleContract, exampleMatch (Some Perfect) None)] emptyRepository)
     = Some 1700000000003 \<and>
   manifestTimestamp
     (storeMatches steppingBackEnv
        [(exampleContract, exampleMatch (Some Perfect) None),
         (exampleContract, exampleMatch (Some Perfect) None)] emptyRepository)
     = Some 1699999990007"
  by (simp add: store_eval steppingBackEnv_def manifestTimestamp_def)

lemma exampleEnv_clock: "clockNeverGoesBack exampleEnv"
  by (simp add: clockNeverGoesBack_def exampleEnv_def)

text \<open>Two stores with a clock that advances.\<close>

theorem manifest_follows_clock_witness:
  "fst (storeMatch exampleEnv exampleContract (exampleMatch (Some Perfect) None)
          emptyRepository) = Inr None \<and>
   r_manifest (snd (storeMatch exampleEnv exampleContract (exampleMatch (Some Perfect) None)
          emptyRepository)) =
     Some (Stringified (JObject [(''timestamp'', JNumber 1700000000003)])) \<and>
   clockNeverGoesBack exampleEnv \<and>
   sorted (manifestWrites (r_ops (storeMatches exampleEnv
      [(exampleContract, exampleMatch (Some Perfect) None),
       (exampleContract, exampleMatch (Some Perfect) None)] emptyRepository)))"
proof -
  have ok: "fst (storeMatch exampleEnv exampleContract (exampleMatch (Some Perfect) None)
          emptyRepository) = Inr None"
    by (simp add: store_eval)
  have reads: "r_clockReads (snd (storeMatch exampleEnv exampleContract
          (exampleMatch (Some Perfect) None) emptyRepository)) = 4"
    by (simp add: store_eval)
  have clock: "e_clock exampleEnv 3 = 1700000000003"
    by (simp add: exampleEnv_def)
  show ?thesis
    using manifest_follows_clock
            [of exampleEnv exampleContract "exampleMatch (Some Perfect) None" emptyRepository
                "[(exampleContract, exampleMatch (Some Perfect) None),
                  (exampleContract, exampleMatch (Some Perfect) None)]"]
      ok exampleEnv_clock
    by (simp add: reads clock)
qed

text \<open>
  An extra-file-input-bug match and a match without status leave the repository alone;
  a partial match is written under \<^verbatim>\<open>partial_match\<close>.
\<close>

theorem storeMatch_outcomes_witness:
  "storeMatch exampleEnv exampleContract (exampleMatch (Some ExtraFileInputBug) None)
     partialRepository =
     (Inr (Some (exampleMatch (Some ExtraFileInputBug) None)), partialRepository) \<and>
   storeMatch exampleEnv exampleContract (exampleMatch None None) partialRepository =
     (Inl (Error ''Unknown match status: null''), partialRepository) \<and>
   fst (storeMatch exampleEnv exampleContract (exampleMatch (Some Partial) None)
          emptyRepository) = Inr None \<and>
   fileContent (snd (storeMatch exampleEnv exampleContract (exampleMatch (Some Partial) None)
                       emptyRepository))
     (ContractFile (PartialQuality, ''1'', ''0xA'') False ''metadata.json'') =
     Some (Stringified (JObject [(''language'', JString ''Solidity'')]))"
proof -
  have ok: "fst (storeMatch exampleEnv exampleContract (exampleMatch (Some Partial) None)
          emptyRepository) = Inr None"
    by (simp add: store_eval)
  show ?thesis
    using storeMatch_outcomes
            [of "exampleMatch (Some ExtraFileInputBug) None" exampleEnv exampleContract
                partialRepository "''0xA''"]
          storeMatch_outcomes
            [of "exampleMatch None None" exampleEnv exampleContract partialRepository "''0xA''"]
          storeMatch_outcomes
            [of "exampleMatch (Some Partial) None" exampleEnv exampleContract emptyRepository
                "''0xA''"]
          ok
    by (simp add: exampleMatch_def exampleEnv_def exampleContract_def)
qed

text \<open>
  C10, against the wording of the specification, at two matches. A match whose
  runtimeMatch is extra-file-input-bug and whose creationMatch is partial is of the first
  kind: it is not returned as it came. And a call can throw after it has written: the
  contract has the sources \<^verbatim>\<open>A.sol\<close> and \<^verbatim>\<open>A.sol/B.sol\<close>, the first is written as a file,
  and the directory of the second cannot be created at the path of that file. The call
  throws \<^verbatim>\<open>EEXIST\<close> and the repository holds the first source.
\<close>

theorem storeMatch_throws_after_writing:
  "storeMatch exampleEnv exampleContract (exampleMatch (Some ExtraFileInputBug) (Some Partial))
     emptyRepository \<noteq>
     (Inr (Some (exampleMatch (Some ExtraFileInputBug) (Some Partial))), emptyRepository) \<and>
   fst (storeMatch exampleEnv nestedContract (exampleMatch (Some Perfect) None)
          emptyRepository) = Inl (SystemError ''EEXIST'') \<and>
   fileContent (snd (storeMatch exampleEnv nestedContract (exampleMatch (Some Perfect) None)
                       emptyRepository))
     (ContractFile (Full, ''1'', ''0xA'') True ''A.sol'') = Some (Plain ''contract A {}'') \<and>
   fileContent emptyRepository (ContractFile (Full, ''1'', ''0xA'') True ''A.sol'') = None"
  by (simp add: store_eval nestedContract_def fileContent_def stat_def)

section \<open>The handlers\<close>

lemmas handler_eval =
  legacyVerifyEndpoint_def legacyVerify_try_def verifyDeployed_def
  throwIfContractIsAlreadyBeingVerified_def activeKey_def checkByChainAndAddress_def
  metadataPath_def stat_def isValid_def idleServer_def returns_def
  exampleRequest_def

lemma verifyDeployed_returns:
  assumes "s_active s (activeKey chainId address) = None"
    and "truthy creatorTxHash \<or> o_creatorTx orc = Inr tx"
    and "o_verify orc = Inr m"
  shows "verifyDeployed orc chainId address creatorTxHash s = (Inr m, s)"
  using assms
  by (auto simp: verifyDeployed_def throwIfContractIsAlreadyBeingVerified_def Let_def
      fun_upd_idem split: sum.splits)

lemma verifyDeployed_throws:
  assumes "s_active s (activeKey chainId address) = None"
    and "truthy creatorTxHash \<or> o_creatorTx orc = Inr tx"
    and "o_verify orc = Inl e"
  shows "verifyDeployed orc chainId address creatorTxHash s = (Inl e, s)"
  using assms
  by (auto simp: verifyDeployed_def throwIfContractIsAlreadyBeingVerified_def Let_def
      fun_upd_idem split: sum.splits)

text \<open>
  C3. In the stateless handler the second verification, run with all uploaded files,
  replaces the first only when its runtimeMatch or creationMatch is perfect. When the
  first verification finds the extra-file input bug and the second returns a partial
  match, the handler falls through to the first match: the answer is the
  extra-file-input-bug match and nothing is stored. The session path takes the second
  match when it is perfect or partial (lemma \<open>sessionVerify_try_recovery\<close>); a second
  extra-file-input-bug ends both paths with the validation error (lemma
  \<open>legacyVerify_try_recovery\<close>). The partial second match is dropped whatever the
  request (lemma \<open>legacyVerify_try_partial_dropped\<close>).
\<close>

theorem legacyVerifyEndpoint_partial_second_match_dropped:
  "legacyVerifyEndpoint exampleEnv bugThenPartial exampleRequest idleServer =
     (SendResult (exampleMatch (Some ExtraFileInputBug) None), idleServer)"
  by (simp add: handler_eval store_eval bugThenPartial_def fun_upd_idem)

lemma legacyVerify_try_recovery:
  assumes free: "s_active s (activeKey (q_chain req) (q_address req)) = None"
    and tx: "truthy (q_creatorTxHash req) \<or>
             (o_creatorTx (lo_first orc) = Inr tx1 \<and> o_creatorTx (lo_second orc) = Inr tx2)"
    and first: "o_verify (lo_first orc) = Inr m" "m_runtimeMatch m = Some ExtraFileInputBug"
    and all: "lo_useAllSources orc = Inr contractWithAllSources"
    and second: "o_verify (lo_second orc) = Inr tempMatch"
  shows "(m_runtimeMatch tempMatch = Some Perfect \<or> m_creationMatch tempMatch = Some Perfect \<longrightarrow>
            legacyVerify_try env orc req (Some contract) s =
              (case fst (storeMatch env contract tempMatch (s_repo s)) of
                 Inl e \<Rightarrow> Inl e
               | Inr _ \<Rightarrow> Inr (SendResult tempMatch),
               s\<lparr>s_repo := snd (storeMatch env contract tempMatch (s_repo s))\<rparr>)) \<and>
         (m_runtimeMatch tempMatch = Some ExtraFileInputBug \<longrightarrow>
            m_creationMatch tempMatch \<noteq> Some Perfect \<longrightarrow>
            legacyVerify_try env orc req (Some contract) s =
              (Inl (ValidationError extraFileMessage), s))"
proof -
  have v1: "verifyDeployed (lo_first orc) (q_chain req) (q_address req) (q_creatorTxHash req) s
              = (Inr m, s)"
    using free tx first(1) by (intro verifyDeployed_returns) auto
  have v2: "verifyDeployed (lo_second orc) (q_chain req) (q_address req) (q_creatorTxHash req) s
              = (Inr tempMatch, s)"
    using free tx second by (intro verifyDeployed_returns) auto
  show ?thesis
  proof (intro conjI impI)
    assume p: "m_runtimeMatch tempMatch = Some Perfect \<or> m_creationMatch tempMatch = Some Perfect"
    show "legacyVerify_try env orc req (Some contract) s =
              (case fst (storeMatch env contract tempMatch (s_repo s)) of
                 Inl e \<Rightarrow> Inl e
               | Inr _ \<Rightarrow> Inr (SendResult tempMatch),
               s\<lparr>s_repo := snd (storeMatch env contract tempMatch (s_repo s))\<rparr>)"
      using p
      by (cases "storeMatch env contract tempMatch (s_repo s)")
         (auto simp: legacyVerify_try_def v1 v2 first all Let_def split: sum.splits)
  next
    assume "m_runtimeMatch tempMatch = Some ExtraFileInputBug"
      "m_creationMatch tempMatch \<noteq> Some Perfect"
    then show "legacyVerify_try env orc req (Some contract) s =
              (Inl (ValidationError extraFileMessage), s)"
      by (simp add: legacyVerify_try_def v1 v2 first all Let_def)
  qed
qed

lemma legacyVerify_try_partial_dropped:
  assumes free: "s_active s (activeKey (q_chain req) (q_address req)) = None"
    and tx: "truthy (q_creatorTxHash req) \<or>
             (o_creatorTx (lo_first orc) = Inr tx1 \<and> o_creatorTx (lo_second orc) = Inr tx2)"
    and first: "o_verify (lo_first orc) = Inr m" "m_runtimeMatch m = Some ExtraFileInputBug"
      "m_creationMatch m = None"
    and all: "lo_useAllSources orc = Inr contractWithAllSources"
    and second: "o_verify (lo_second orc) = Inr tempMatch"
      "m_runtimeMatch tempMatch = Some Partial" "m_creationMatch tempMatch \<noteq> Some Perfect"
  shows "legacyVerify_try env orc req (Some contract) s = (Inr (SendResult m), s)"
proof -
  have v1: "verifyDeployed (lo_first orc) (q_chain req) (q_address req) (q_creatorTxHash req) s
              = (Inr m, s)"
    using free tx first(1) by (intro verifyDeployed_returns) auto
  have v2: "verifyDeployed (lo_second orc) (q_chain req) (q_address req) (q_creatorTxHash req) s
              = (Inr tempMatch, s)"
    using free tx second(1) by (intro verifyDeployed_returns) auto
  have st: "storeMatch env contract m (s_repo s) = (Inr (Some m), s_repo s)"
    using first by (simp add: storeMatch_def)
  show ?thesis
    using first second all by (simp add: legacyVerify_try_def v1 v2 st Let_def)
qed

text \<open>
  C5, as the code has it. For a staged contract with address and chainId set, session
  verification first looks \<^verbatim>\<open>metadata.json\<close> up under \<^verbatim>\<open>full_match\<close>, and nowhere else.
  When it is there the contract is reported as perfect with the birthtime of that file as
  storage timestamp, whatever the verification would have returned, and neither the
  single-flight map nor the repository is touched. When it is not there, whatever is
  stored under \<^verbatim>\<open>partial_match\<close>, the contract is handled as one that the store does not
  hold: a contract that cannot be verified yet is left as it is, and a contract that can
  be verified is verified again. If the verification throws, the contract is reported
  with status error and the message of the error; if it returns a match, the status,
  message and storage timestamp reported are those of the new match, which is handed to
  \<open>storeMatch\<close>.
\<close>

theorem session_short_circuits_on_full_match:
  assumes "truthy (cw_address cw)" and "truthy (cw_chainId cw)"
    and "e_getAddress env (orEmpty (cw_address cw)) = Some a"
  shows "(stat (s_repo s) (ContractFile (Full, orEmpty (cw_chainId cw), a) False ''metadata.json'')
            = Some f \<longrightarrow>
          verifyContractInSession env orc cw s =
            (None,
             cw\<lparr>cw_status := Some Perfect, cw_statusMessage := None,
                cw_storageTimestamp := Some (f_birthtime f)\<rparr>,
             s)) \<and>
         (stat (s_repo s) (ContractFile (Full, orEmpty (cw_chainId cw), a) False ''metadata.json'')
            = None \<longrightarrow>
            (\<not> isVerifiable (cw\<lparr>cw_contract := checkAndFetchMissing orc (cw_contract cw)\<rparr>) \<longrightarrow>
               verifyContractInSession env orc cw s =
                 (None, cw\<lparr>cw_contract := checkAndFetchMissing orc (cw_contract cw)\<rparr>, s)) \<and>
            (isVerifiable (cw\<lparr>cw_contract := checkAndFetchMissing orc (cw_contract cw)\<rparr>) \<and>
             sessionVerify_try orc (cw\<lparr>cw_contract := checkAndFetchMissing orc (cw_contract cw)\<rparr>) s
               = (Inl e, s1) \<longrightarrow>
               verifyContractInSession env orc cw s =
                 (None,
                  cw\<lparr>cw_contract := checkAndFetchMissing orc (cw_contract cw),
                     cw_status := Some StatusError,
                     cw_statusMessage := Some (error_message e),
                     cw_storageTimestamp := None\<rparr>,
                  s1)) \<and>
            (isVerifiable (cw\<lparr>cw_contract := checkAndFetchMissing orc (cw_contract cw)\<rparr>) \<and>
             sessionVerify_try orc (cw\<lparr>cw_contract := checkAndFetchMissing orc (cw_contract cw)\<rparr>) s
               = (Inr m, s1) \<longrightarrow>
               verifyContractInSession env orc cw s =
                 (if m_runtimeMatch m \<noteq> None \<or> m_creationMatch m \<noteq> None
                  then case fst (storeMatch env (checkAndFetchMissing orc (cw_contract cw)) m
                                   (s_repo s1)) of
                         Inl err \<Rightarrow> Some err
                       | Inr _ \<Rightarrow> None
                  else None,
                  cw\<lparr>cw_contract := checkAndFetchMissing orc (cw_contract cw),
                     cw_status := (case getMatchStatus m of
                                     None \<Rightarrow> Some StatusError | Some st \<Rightarrow> Some st),
                     cw_statusMessage := m_message m,
                     cw_storageTimestamp := m_storageTimestamp m\<rparr>,
                  if m_runtimeMatch m \<noteq> None \<or> m_creationMatch m \<noteq> None
                  then s1\<lparr>s_repo := snd (storeMatch env (checkAndFetchMissing orc (cw_contract cw))
                                            m (s_repo s1))\<rparr>
                  else s1)))"
proof (intro conjI impI)
  assume "stat (s_repo s) (ContractFile (Full, orEmpty (cw_chainId cw), a) False ''metadata.json'')
            = Some f"
  then show "verifyContractInSession env orc cw s =
            (None,
             cw\<lparr>cw_status := Some Perfect, cw_statusMessage := None,
                cw_storageTimestamp := Some (f_birthtime f)\<rparr>,
             s)"
    using assms
    by (simp add: verifyContractInSession_def checkByChainAndAddress_def
        generateAbsoluteFilePath_def metadataPath_def foundMatch_def)
next
  let ?cw1 = "cw\<lparr>cw_contract := checkAndFetchMissing orc (cw_contract cw)\<rparr>"
  assume "stat (s_repo s) (ContractFile (Full, orEmpty (cw_chainId cw), a) False
                ''metadata.json'') = None"
  then have lookup: "checkByChainAndAddress env (orEmpty (cw_address cw)) (orEmpty (cw_chainId cw))
                  (s_repo s) = Inr []"
    using assms
    by (simp add: checkByChainAndAddress_def generateAbsoluteFilePath_def metadataPath_def)
  assume "\<not> isVerifiable ?cw1"
  then show "verifyContractInSession env orc cw s = (None, ?cw1, s)"
    using assms by (simp add: verifyContractInSession_def lookup Let_def)
next
  let ?cw1 = "cw\<lparr>cw_contract := checkAndFetchMissing orc (cw_contract cw)\<rparr>"
  assume "stat (s_repo s) (ContractFile (Full, orEmpty (cw_chainId cw), a) False
                ''metadata.json'') = None"
  then have lookup: "checkByChainAndAddress env (orEmpty (cw_address cw)) (orEmpty (cw_chainId cw))
                  (s_repo s) = Inr []"
    using assms
    by (simp add: checkByChainAndAddress_def generateAbsoluteFilePath_def metadataPath_def)
  assume "isVerifiable ?cw1 \<and> sessionVerify_try orc ?cw1 s = (Inl e, s1)"
  then show "verifyContractInSession env orc cw s =
                 (None,
                  cw\<lparr>cw_contract := checkAndFetchMissing orc (cw_contract cw),
                     cw_status := Some StatusError,
                     cw_statusMessage := Some (error_message e),
                     cw_storageTimestamp := None\<rparr>,
                  s1)"
    using assms
    by (simp add: verifyContractInSession_def lookup errorMatch_def getMatchStatus_def Let_def)
next
  let ?cw1 = "cw\<lparr>cw_contract := checkAndFetchMissing orc (cw_contract cw)\<rparr>"
  assume "stat (s_repo s) (ContractFile (Full, orEmpty (cw_chainId cw), a) False
                ''metadata.json'') = None"
  then have lookup: "checkByChainAndAddress env (orEmpty (cw_address cw)) (orEmpty (cw_chainId cw))
                  (s_repo s) = Inr []"
    using assms
    by (simp add: checkByChainAndAddress_def generateAbsoluteFilePath_def metadataPath_def)
  assume "isVerifiable ?cw1 \<and> sessionVerify_try orc ?cw1 s = (Inr m, s1)"
  then show "verifyContractInSession env orc cw s =
                 (if m_runtimeMatch m \<noteq> None \<or> m_creationMatch m \<noteq> None
                  then case fst (storeMatch env (checkAndFetchMissing orc (cw_contract cw)) m
                                   (s_repo s1)) of
                         Inl err \<Rightarrow> Some err
                       | Inr _ \<Rightarrow> None
                  else None,
                  cw\<lparr>cw_contract := checkAndFetchMissing orc (cw_contract cw),
                     cw_status := (case getMatchStatus m of
                                     None \<Rightarrow> Some StatusError | Some st \<Rightarrow> Some st),
                     cw_statusMessage := m_message m,
                     cw_storageTimestamp := m_storageTimestamp m\<rparr>,
                  if m_runtimeMatch m \<noteq> None \<or> m_creationMatch m \<noteq> None
                  then s1\<lparr>s_repo := snd (storeMatch env (checkAndFetchMissing orc (cw_contract cw))
                                            m (s_repo s1))\<rparr>
                  else s1)"
    using assms
    by (cases "storeMatch env (checkAndFetchMissing orc (cw_contract cw)) m (s_repo s1)")
       (auto simp: verifyContractInSession_def lookup Let_def split: sum.splits)
qed

text \<open>
  The repository holds a full match of the staged contract; it holds a partial match only
  and the verification fails; it holds a partial match only and the verification finds a
  perfect match, which is stored.
\<close>

theorem session_short_circuits_on_full_match_witness:
  "verifyContractInSession exampleEnv mismatchOracle exampleWrapper
     (idleServer\<lparr>s_repo := fullRepository\<rparr>) =
     (None,
      exampleWrapper\<lparr>cw_status := Some Perfect, cw_statusMessage := None,
                     cw_storageTimestamp := Some 1600000000000\<rparr>,
      idleServer\<lparr>s_repo := fullRepository\<rparr>) \<and>
   stat partialRepository (ContractFile (PartialQuality, ''1'', ''0xA'') False ''metadata.json'') =
     Some \<lparr>f_content = Stringified (JObject [(''language'', JString ''Solidity'')]),
           f_birthtime = 1600000000000\<rparr> \<and>
   verifyContractInSession exampleEnv mismatchOracle exampleWrapper
     (idleServer\<lparr>s_repo := partialRepository\<rparr>) =
     (None,
      exampleWrapper\<lparr>cw_status := Some StatusError,
                     cw_statusMessage := Some ''The deployed and recompiled bytecode don't match.'',
                     cw_storageTimestamp := None\<rparr>,
      idleServer\<lparr>s_repo := partialRepository\<rparr>) \<and>
   verifyContractInSession exampleEnv perfectOracle exampleWrapper
     (idleServer\<lparr>s_repo := partialRepository\<rparr>) =
     (None,
      exampleWrapper\<lparr>cw_status := Some Perfect, cw_statusMessage := None,
                     cw_storageTimestamp := None\<rparr>,
      idleServer\<lparr>s_repo := snd (storeMatch exampleEnv exampleContract
                                    (exampleMatch (Some Perfect) None) partialRepository)\<rparr>)"
proof -
  have ok: "fst (storeMatch exampleEnv exampleContract (exampleMatch (Some Perfect) None)
          partialRepository) = Inr None"
    by (simp add: store_eval partialRepository_def)
  have st: "stat partialRepository
              (ContractFile (PartialQuality, ''1'', ''0xA'') False ''metadata.json'') =
     Some \<lparr>f_content = Stringified (JObject [(''language'', JString ''Solidity'')]),
           f_birthtime = 1600000000000\<rparr>"
    by (simp add: stat_def partialRepository_def)
  have v1: "sessionVerify_try mismatchOracle exampleWrapper
              (idleServer\<lparr>s_repo := partialRepository\<rparr>) =
            (Inl (Error ''The deployed and recompiled bytecode don't match.''),
             idleServer\<lparr>s_repo := partialRepository\<rparr>)"
    by (simp add: sessionVerify_try_def verifyDeployed_def
        throwIfContractIsAlreadyBeingVerified_def activeKey_def idleServer_def
        mismatchOracle_def exampleWrapper_def orEmpty_def fun_upd_idem Let_def)
  have v2: "sessionVerify_try perfectOracle exampleWrapper
              (idleServer\<lparr>s_repo := partialRepository\<rparr>) =
            (Inr (exampleMatch (Some Perfect) None), idleServer\<lparr>s_repo := partialRepository\<rparr>)"
    by (simp add: sessionVerify_try_def verifyDeployed_def
        throwIfContractIsAlreadyBeingVerified_def activeKey_def idleServer_def
        perfectOracle_def returns_def exampleMatch_def exampleWrapper_def orEmpty_def
        fun_upd_idem Let_def)
  have w: "truthy (cw_address exampleWrapper)" "truthy (cw_chainId exampleWrapper)"
      "e_getAddress exampleEnv (orEmpty (cw_address exampleWrapper)) = Some ''0xA''"
      "orEmpty (cw_chainId exampleWrapper) = ''1''"
    by (simp_all add: exampleWrapper_def exampleEnv_def orEmpty_def)
  have c: "cw_contract exampleWrapper = exampleContract"
      "checkAndFetchMissing mismatchOracle exampleContract = exampleContract"
      "checkAndFetchMissing perfectOracle exampleContract = exampleContract"
      "isVerifiable exampleWrapper"
      "exampleWrapper\<lparr>cw_contract := exampleContract\<rparr> = exampleWrapper"
    by (simp_all add: exampleWrapper_def checkAndFetchMissing_def isValid_def
        exampleContract_def isVerifiable_def)
  have sF: "stat fullRepository (ContractFile (Full, ''1'', ''0xA'') False ''metadata.json'') =
      Some \<lparr>f_content = Stringified (JObject [(''language'', JString ''Solidity'')]),
            f_birthtime = 1600000000000\<rparr>"
    by (simp add: stat_def fullRepository_def)
  have sP: "stat partialRepository (ContractFile (Full, ''1'', ''0xA'') False ''metadata.json'') =
      None"
    by (simp add: stat_def partialRepository_def)
  have g: "getMatchStatus (exampleMatch (Some Perfect) None) = Some Perfect"
      "m_runtimeMatch (exampleMatch (Some Perfect) None) = Some Perfect"
      "m_message (exampleMatch (Some Perfect) None) = None"
      "m_storageTimestamp (exampleMatch (Some Perfect) None) = None"
    by (simp_all add: getMatchStatus_def exampleMatch_def)
  have A: "verifyContractInSession exampleEnv mismatchOracle exampleWrapper
     (idleServer\<lparr>s_repo := fullRepository\<rparr>) =
     (None,
      exampleWrapper\<lparr>cw_status := Some Perfect, cw_statusMessage := None,
                     cw_storageTimestamp := Some 1600000000000\<rparr>,
      idleServer\<lparr>s_repo := fullRepository\<rparr>)"
    using session_short_circuits_on_full_match
            [OF w(1) w(2) w(3), of "idleServer\<lparr>s_repo := fullRepository\<rparr>"
                "\<lparr>f_content = Stringified (JObject [(''language'', JString ''Solidity'')]),
                  f_birthtime = 1600000000000\<rparr>" mismatchOracle]
    by (simp add: w(4) sF)
  have B: "verifyContractInSession exampleEnv mismatchOracle exampleWrapper
     (idleServer\<lparr>s_repo := partialRepository\<rparr>) =
     (None,
      exampleWrapper\<lparr>cw_status := Some StatusError,
                     cw_statusMessage := Some ''The deployed and recompiled bytecode don't match.'',
                     cw_storageTimestamp := None\<rparr>,
      idleServer\<lparr>s_repo := partialRepository\<rparr>)"
    using session_short_circuits_on_full_match
            [OF w(1) w(2) w(3), of "idleServer\<lparr>s_repo := partialRepository\<rparr>"
                _ mismatchOracle
                "Error ''The deployed and recompiled bytecode don't match.''"
                "idleServer\<lparr>s_repo := partialRepository\<rparr>"]
    by (simp add: w(4) sP c v1)
  have C: "verifyContractInSession exampleEnv perfectOracle exampleWrapper
     (idleServer\<lparr>s_repo := partialRepository\<rparr>) =
     (None,
      exampleWrapper\<lparr>cw_status := Some Perfect, cw_statusMessage := None,
                     cw_storageTimestamp := None\<rparr>,
      idleServer\<lparr>s_repo := snd (storeMatch exampleEnv exampleContract
                                    (exampleMatch (Some Perfect) None) partialRepository)\<rparr>)"
    using session_short_circuits_on_full_match
            [OF w(1) w(2) w(3), of "idleServer\<lparr>s_repo := partialRepository\<rparr>"
                _ perfectOracle _ "idleServer\<lparr>s_repo := partialRepository\<rparr>"
                "exampleMatch (Some Perfect) None"]
    by (simp add: w(4) sP c v2 g ok)
  show ?thesis
    using A B C st by simp
qed

text \<open>
  C5, against the wording of the specification: with a partial match alone in the repository the lookup finds
  nothing and the contract is verified again; here the verification fails, and the
  contract is reported with status error instead of the stored partial status.
\<close>

theorem session_reverifies_partial_match:
  "verifyContractInSession exampleEnv mismatchOracle exampleWrapper
     (idleServer\<lparr>s_repo := partialRepository\<rparr>) =
     (None,
      exampleWrapper\<lparr>cw_status := Some StatusError,
                     cw_statusMessage := Some ''The deployed and recompiled bytecode don't match.'',
                     cw_storageTimestamp := None\<rparr>,
      idleServer\<lparr>s_repo := partialRepository\<rparr>)"
  by (simp add: verifyContractInSession_def checkByChainAndAddress_def
      generateAbsoluteFilePath_def metadataPath_def stat_def partialRepository_def
      exampleWrapper_def exampleEnv_def exampleContract_def orEmpty_def mismatchOracle_def
      checkAndFetchMissing_def isValid_def isVerifiable_def sessionVerify_try_def
      verifyDeployed_def throwIfContractIsAlreadyBeingVerified_def activeKey_def
      idleServer_def errorMatch_def getMatchStatus_def fun_upd_idem Let_def)

lemma lookups_on_partial_match:
  "checkByChainAndAddress exampleEnv ''0xA'' ''1'' partialRepository = Inr [] \<and>
   checkAllByChainAndAddress exampleEnv ''0xA'' ''1'' partialRepository =
     Inr [foundMatch ''0xA'' ''1'' Partial 1600000000000]"
  by (simp add: checkByChainAndAddress_def checkAllByChainAndAddress_def fetchFromStorage_def
      generateAbsoluteFilePath_def metadataPath_def stat_def partialRepository_def
      exampleEnv_def)

lemma sessionVerify_try_recovery:
  assumes free: "s_active s (activeKey (orEmpty (cw_chainId cw)) (orEmpty (cw_address cw))) = None"
    and tx: "o_creatorTx (so_first orc) = Inr tx1" "o_creatorTx (so_second orc) = Inr tx2"
    and first: "o_verify (so_first orc) = Inr m" "m_runtimeMatch m = Some ExtraFileInputBug"
    and all: "so_useAllSources orc = Inr contractWithAllSources"
    and second: "o_verify (so_second orc) = Inr tempMatch"
    and ok: "m_runtimeMatch tempMatch = Some Perfect \<or> m_runtimeMatch tempMatch = Some Partial \<or>
             m_creationMatch tempMatch = Some Perfect \<or> m_creationMatch tempMatch = Some Partial"
  shows "sessionVerify_try orc cw s = (Inr tempMatch, s)"
proof -
  have v1: "verifyDeployed (so_first orc) (orEmpty (cw_chainId cw)) (orEmpty (cw_address cw))
              (cw_creatorTxHash cw) s = (Inr m, s)"
    using free tx first(1) by (intro verifyDeployed_returns) auto
  have v2: "verifyDeployed (so_second orc) (orEmpty (cw_chainId cw)) (orEmpty (cw_address cw))
              None s = (Inr tempMatch, s)"
    using free tx second by (intro verifyDeployed_returns) auto
  show ?thesis
    using ok by (auto simp: sessionVerify_try_def v1 v2 first all)
qed

section \<open>The single-flight key of verifyDeployed\<close>

lemma verifyDeployed_releases_key:
  assumes "s_active s (activeKey chainId address) = None"
    and "truthy creatorTxHash \<or> o_creatorTx orc = Inr tx"
  shows "snd (verifyDeployed orc chainId address creatorTxHash s) = s"
  using assms
  by (auto simp: verifyDeployed_def throwIfContractIsAlreadyBeingVerified_def Let_def
      fun_upd_idem split: sum.splits)

text \<open>
  C2. The key \<^verbatim>\<open>chainId:address\<close> is removed on the two paths through the \<^verbatim>\<open>try\<close> block
  (lemma \<open>verifyDeployed_releases_key\<close>), but \<^verbatim>\<open>getCreatorTx\<close> is awaited before the
  \<^verbatim>\<open>try\<close>: when no creator transaction hash is passed and \<^verbatim>\<open>getCreatorTx\<close> rejects, the
  call throws and the key stays in the map although no verification is in progress.
\<close>

theorem verifyDeployed_key_leaks_when_getCreatorTx_rejects:
  "verifyDeployed \<lparr>o_creatorTx = Inl (Error ''getCreatorTx failed''),
                    o_verify = Inr (exampleMatch (Some Perfect) None)\<rparr>
     ''1'' ''0xA'' None idleServer =
   (Inl (Error ''getCreatorTx failed''),
    idleServer\<lparr>s_active := [''1:0xA'' \<mapsto> True]\<rparr>)"
  by (simp add: verifyDeployed_def throwIfContractIsAlreadyBeingVerified_def idleServer_def
      activeKey_def)

lemma verifyDeployed_getCreatorTx_rejects:
  assumes "s_active s (activeKey chainId address) = None"
    and "\<not> truthy creatorTxHash" and "o_creatorTx orc = Inl e"
  shows "verifyDeployed orc chainId address creatorTxHash s =
           (Inl e, s\<lparr>s_active := (s_active s)(activeKey chainId address \<mapsto> True)\<rparr>)"
  using assms
  by (simp add: verifyDeployed_def throwIfContractIsAlreadyBeingVerified_def Let_def)

lemma verifyDeployed_after_leak:
  "fst (verifyDeployed orc ''1'' ''0xA'' tx (idleServer\<lparr>s_active := [''1:0xA'' \<mapsto> True]\<rparr>)) =
   Inl (ContractIsAlreadyBeingVerifiedError ''1'' ''0xA'')"
  by (simp add: verifyDeployed_def throwIfContractIsAlreadyBeingVerified_def idleServer_def
      activeKey_def)

section \<open>The size limit of the session\<close>

lemma inputFilesOf_Some [simp]: "inputFilesOf (s\<lparr>ss_inputFiles := Some fs\<rparr>) = fs"
  by (simp add: inputFilesOf_def)

lemma inputSize_init [simp]:
  "inputSize pcs (s\<lparr>ss_inputFiles := Some (inputFilesOf s)\<rparr>) = inputSize pcs s"
  by (simp add: inputSize_def)


lemma saveFiles_accepted:
  "inputSize pathContents session \<le> MAX_SESSION_SIZE \<Longrightarrow>
   inputFilesOf (snd (saveFiles pathContents session)) =
     fst (saveFiles_loop pathContents (inputFilesOf session) 0)"
  by (simp add: saveFiles_def Let_def inputFilesOf_def inputSize_def split: prod.splits)

lemma saveFiles_rejected:
  "\<not> inputSize pathContents session \<le> MAX_SESSION_SIZE \<Longrightarrow>
   inputFilesOf (snd (saveFiles pathContents session)) = inputFilesOf session"
  by (simp add: saveFiles_def Let_def inputFilesOf_def inputSize_def split: prod.splits)





section \<open>PendingContract\<close>

lemma move_iff:
  "fst (movePendingToFetchedSources env n pc) = None \<longleftrightarrow>
     (\<exists>source. map_of (pd_pendingSources pc) n = Some source \<and> validSource env source)"
  by (auto simp: movePendingToFetchedSources_def validSource_def split: option.splits)

lemma move_fail:
  "fst (movePendingToFetchedSources env n pc) \<noteq> None \<Longrightarrow>
   snd (movePendingToFetchedSources env n pc) = pc"
  by (auto simp: movePendingToFetchedSources_def split: option.splits if_splits)

lemma move_ok:
  "map_of (pd_pendingSources pc) n = Some source \<Longrightarrow> validSource env source \<Longrightarrow>
   movePendingToFetchedSources env n pc =
     (None, pc\<lparr>pd_fetchedSources := AList.update n source (pd_fetchedSources pc),
               pd_pendingSources := AList.delete n (pd_pendingSources pc)\<rparr>)"
  by (auto simp: movePendingToFetchedSources_def validSource_def)

lemma move_settled:
  assumes "map_of (pd_pendingSources pc) n \<noteq> None" "map_of (pd_fetchedSources pc) n = None"
  shows "settled env n (snd (movePendingToFetchedSources env n pc))"
  using assms
  by (auto simp: movePendingToFetchedSources_def settled_def validSource_def
      update_conv' delete_conv' split: option.splits)

lemma move_settled':
  assumes "settled env n pc"
  shows "settled env n (snd (movePendingToFetchedSources env n pc))"
  using assms
  by (auto simp: movePendingToFetchedSources_def settled_def validSource_def
      update_conv' delete_conv' split: option.splits)

lemma move_frame:
  assumes "p \<noteq> n"
  shows "map_of (pd_pendingSources (snd (movePendingToFetchedSources env n pc))) p =
           map_of (pd_pendingSources pc) p \<and>
         map_of (pd_fetchedSources (snd (movePendingToFetchedSources env n pc))) p =
           map_of (pd_fetchedSources pc) p \<and>
         pd_metadata (snd (movePendingToFetchedSources env n pc)) = pd_metadata pc"
  using assms
  by (auto simp: movePendingToFetchedSources_def update_conv' delete_conv'
      split: option.splits)

lemma setContent_frame:
  assumes "p \<noteq> n"
  shows "map_of (pd_pendingSources (setContent n c pc)) p = map_of (pd_pendingSources pc) p"
  using assms by (auto simp: setContent_def update_conv' split: option.splits)

lemma setContent_other [simp]:
  "pd_fetchedSources (setContent n c pc) = pd_fetchedSources pc"
  "pd_metadata (setContent n c pc) = pd_metadata pc"
  by (auto simp: setContent_def split: option.splits)

lemma setContent_pending:
  "map_of (pd_pendingSources (setContent n c pc)) n =
     map_option (\<lambda>source. source\<lparr>ms_content := Some c\<rparr>) (map_of (pd_pendingSources pc) n)"
  by (auto simp: setContent_def update_conv' split: option.splits)

lemma setContent_moved:
  "map_of (pd_pendingSources pc) n = None \<Longrightarrow> setContent n c pc = pc"
  by (simp add: setContent_def)

lemma fetchUrls_settled:
  assumes "settled env n pc"
  shows "settled env n (snd (fetchUrls env n urls pc))"
  using assms
proof (induction urls arbitrary: pc)
  case Nil
  then show ?case by simp
next
  case (Cons url rest)
  show ?case
  proof (cases "fetchUrl env url")
    case None
    then show ?thesis
      using Cons by (auto simp: fetchUrl_def split: option.splits)
  next
    case (Some res)
    then obtain fileHash fetcher where fh: "pe_fromUrl env url = Some fileHash"
      "pe_fetchers env (fh_origin fileHash) = Some fetcher" "fetcher fileHash = res"
      by (auto simp: fetchUrl_def split: option.splits)
    show ?thesis
    proof (cases res)
      case (Inl e)
      then show ?thesis using fh Cons.prems by simp
    next
      case (Inr body)
      let ?pc1 = "setContent n body pc"
      have s1: "settled env n (snd (movePendingToFetchedSources env n ?pc1))"
      proof (cases "map_of (pd_pendingSources pc) n")
        case None
        then show ?thesis using Cons.prems by (simp add: setContent_moved move_settled')
      next
        case (Some source)
        then have "map_of (pd_fetchedSources pc) n = None"
          using Cons.prems by (simp add: settled_def)
        then show ?thesis
          using Some by (intro move_settled) (simp_all add: setContent_pending)
      qed
      obtain e pc' where mv: "movePendingToFetchedSources env n ?pc1 = (e, pc')"
        by (cases "movePendingToFetchedSources env n ?pc1")
      with s1 have "settled env n pc'" by simp
      then show ?thesis
        using fh Inr mv Cons.IH[of pc'] by (cases e) simp_all
    qed
  qed
qed

lemma fetchUrls_frame:
  assumes "p \<noteq> n"
  shows "map_of (pd_pendingSources (snd (fetchUrls env n urls pc))) p =
           map_of (pd_pendingSources pc) p \<and>
         map_of (pd_fetchedSources (snd (fetchUrls env n urls pc))) p =
           map_of (pd_fetchedSources pc) p \<and>
         pd_metadata (snd (fetchUrls env n urls pc)) = pd_metadata pc"
proof (induction urls arbitrary: pc)
  case Nil
  then show ?case by simp
next
  case (Cons url rest)
  have mv: "\<And>body e pc'. movePendingToFetchedSources env n (setContent n body pc) = (e, pc') \<Longrightarrow>
      map_of (pd_pendingSources pc') p = map_of (pd_pendingSources pc) p \<and>
      map_of (pd_fetchedSources pc') p = map_of (pd_fetchedSources pc) p \<and>
      pd_metadata pc' = pd_metadata pc"
    using move_frame[OF assms, of env] setContent_frame[OF assms]
    by (metis setContent_other snd_conv)
  show ?case
    using Cons.IH mv
    by (auto split: option.splits sum.splits prod.splits)
qed

lemma move_metadata:
  "pd_metadata (snd (movePendingToFetchedSources env n pc)) = pd_metadata pc"
  by (auto simp: movePendingToFetchedSources_def split: option.splits)

lemma settled_cong:
  assumes "map_of (pd_pendingSources pc') p = map_of (pd_pendingSources pc) p"
    and "map_of (pd_fetchedSources pc') p = map_of (pd_fetchedSources pc) p"
  shows "settled env p pc' = settled env p pc \<and> isPending pc' p = isPending pc p \<and>
         isFetched pc' p = isFetched pc p"
  using assms by (auto simp: settled_def isPending_def isFetched_def split: option.splits)

text \<open>The task on its own.\<close>

lemma assembleSource_settled:
  assumes "(isPending pc n \<and> \<not> isFetched pc n) \<or> settled env n pc"
  shows "settled env n (snd (assembleSource env n pc))"
proof (cases "map_of (pd_pendingSources pc) n")
  case None
  then show ?thesis
    using assms by (simp add: assembleSource_def isPending_def)
next
  case (Some source)
  have nf: "map_of (pd_fetchedSources pc) n = None"
    using assms Some by (auto simp: isFetched_def settled_def)
  show ?thesis
  proof (cases "truthy (ms_content source)")
    case True
    then show ?thesis
      using Some nf by (simp add: assembleSource_def move_settled)
  next
    case False
    then have "settled env n pc"
      using Some nf by (simp add: settled_def validSource_def)
    then show ?thesis
      using Some False by (simp add: assembleSource_def fetchUrls_settled)
  qed
qed

lemma assembleSource_frame:
  assumes "p \<noteq> n"
  shows "map_of (pd_pendingSources (snd (assembleSource env n pc))) p =
           map_of (pd_pendingSources pc) p \<and>
         map_of (pd_fetchedSources (snd (assembleSource env n pc))) p =
           map_of (pd_fetchedSources pc) p"
  using move_frame[OF assms, of env pc] fetchUrls_frame[OF assms, of env _ pc]
  by (auto simp: assembleSource_def split: option.splits)

text \<open>The steps of a task between two awaits.\<close>

lemma startTask_settled:
  assumes "(isPending pc n \<and> \<not> isFetched pc n) \<or> settled env n pc"
  shows "settled env n (snd (snd (startTask env n pc)))"
proof (cases "map_of (pd_pendingSources pc) n")
  case None
  then show ?thesis
    using assms by (simp add: startTask_def isPending_def)
next
  case (Some source)
  have nf: "map_of (pd_fetchedSources pc) n = None"
    using assms Some by (auto simp: isFetched_def settled_def)
  show ?thesis
  proof (cases "truthy (ms_content source)")
    case True
    then show ?thesis
      using Some nf move_settled[of pc n env]
      by (auto simp: startTask_def split: prod.splits)
  next
    case False
    then show ?thesis
      using Some nf by (simp add: startTask_def settled_def validSource_def)
  qed
qed

lemma startTask_frame:
  assumes "p \<noteq> n"
  shows "map_of (pd_pendingSources (snd (snd (startTask env n pc)))) p =
           map_of (pd_pendingSources pc) p \<and>
         map_of (pd_fetchedSources (snd (snd (startTask env n pc)))) p =
           map_of (pd_fetchedSources pc) p"
  using move_frame[OF assms, of env pc]
  by (auto simp: startTask_def split: option.splits prod.splits)

lemma startTask_metadata:
  "pd_metadata (snd (snd (startTask env n pc))) = pd_metadata pc"
  using move_metadata[of env n pc]
  by (auto simp: startTask_def split: option.splits prod.splits)

lemma resumeTask_settled:
  assumes "settled env n pc"
  shows "settled env n (snd (snd (resumeTask env n a pc)))"
proof -
  obtain res rest where a: "a = (res, rest)" by (cases a)
  show ?thesis
  proof (cases res)
    case (Inl e)
    then show ?thesis using assms by (simp add: resumeTask_def a)
  next
    case (Inr body)
    let ?pc1 = "setContent n body pc"
    have s1: "settled env n (snd (movePendingToFetchedSources env n ?pc1))"
    proof (cases "map_of (pd_pendingSources pc) n")
      case None
      then show ?thesis using assms by (simp add: setContent_moved move_settled')
    next
      case (Some source)
      then have "map_of (pd_fetchedSources pc) n = None"
        using assms by (simp add: settled_def)
      then show ?thesis
        using Some by (intro move_settled) (simp_all add: setContent_pending)
    qed
    then show ?thesis
      by (cases "movePendingToFetchedSources env n ?pc1")
         (auto simp: resumeTask_def a Inr split: option.splits)
  qed
qed

lemma resumeTask_frame:
  assumes "p \<noteq> n"
  shows "map_of (pd_pendingSources (snd (snd (resumeTask env n a pc)))) p =
           map_of (pd_pendingSources pc) p \<and>
         map_of (pd_fetchedSources (snd (snd (resumeTask env n a pc)))) p =
           map_of (pd_fetchedSources pc) p"
proof -
  have mv: "\<And>body e pc'. movePendingToFetchedSources env n (setContent n body pc) = (e, pc') \<Longrightarrow>
      map_of (pd_pendingSources pc') p = map_of (pd_pendingSources pc) p \<and>
      map_of (pd_fetchedSources pc') p = map_of (pd_fetchedSources pc) p"
    using move_frame[OF assms, of env] setContent_frame[OF assms]
    by (metis setContent_other(1) snd_conv)
  show ?thesis
    using mv by (auto simp: resumeTask_def split: prod.splits sum.splits option.splits)
qed

lemma resumeTask_metadata:
  "pd_metadata (snd (snd (resumeTask env n a pc))) = pd_metadata pc"
proof -
  have "\<And>body. pd_metadata (snd (movePendingToFetchedSources env n (setContent n body pc))) =
          pd_metadata pc"
    by (simp add: move_metadata)
  then have mv: "\<And>body e pc'. movePendingToFetchedSources env n (setContent n body pc) = (e, pc') \<Longrightarrow>
      pd_metadata pc' = pd_metadata pc"
    by (metis snd_conv)
  show ?thesis
    using mv by (auto simp: resumeTask_def split: prod.splits sum.splits option.splits)
qed

lemma startTask_untouched:
  assumes "\<not> isPending pc p" and "\<not> isFetched pc p"
  shows "\<not> isPending (snd (snd (startTask env n pc))) p \<and>
         \<not> isFetched (snd (snd (startTask env n pc))) p"
proof (cases "p = n")
  case True
  then show ?thesis
    using assms by (simp add: startTask_def isPending_def)
next
  case False
  then show ?thesis
    using assms startTask_frame[OF False, of env pc]
      settled_cong[of "snd (snd (startTask env n pc))" p pc env]
    by simp
qed

lemma resumeTask_untouched:
  assumes "\<not> isPending pc p" and "\<not> isFetched pc p"
  shows "\<not> isPending (snd (snd (resumeTask env n a pc))) p \<and>
         \<not> isFetched (snd (snd (resumeTask env n a pc))) p"
proof (cases "p = n")
  case True
  then have "map_of (pd_pendingSources pc) n = None"
    using assms by (simp add: isPending_def)
  then have "snd (snd (resumeTask env n a pc)) = pc"
    by (auto simp: resumeTask_def setContent_moved movePendingToFetchedSources_def
        split: prod.splits sum.splits)
  then show ?thesis using assms by simp
next
  case False
  then show ?thesis
    using assms resumeTask_frame[OF False, of env a pc]
      settled_cong[of "snd (snd (resumeTask env n a pc))" p pc env]
    by simp
qed

lemma startTask_keeps:
  assumes "(isPending pc p \<and> \<not> isFetched pc p) \<or> settled env p pc"
  shows "(isPending (snd (snd (startTask env n pc))) p \<and>
          \<not> isFetched (snd (snd (startTask env n pc))) p) \<or>
         settled env p (snd (snd (startTask env n pc)))"
proof (cases "p = n")
  case True
  then show ?thesis using assms startTask_settled[of pc n env] by simp
next
  case False
  then show ?thesis
    using assms startTask_frame[OF False, of env pc]
      settled_cong[of "snd (snd (startTask env n pc))" p pc env]
    by simp
qed

lemma startTask_stays_settled:
  assumes "settled env p pc"
  shows "settled env p (snd (snd (startTask env n pc)))"
proof (cases "p = n")
  case True
  then show ?thesis using assms startTask_settled[of pc n env] by simp
next
  case False
  then show ?thesis
    using assms startTask_frame[OF False, of env pc]
      settled_cong[of "snd (snd (startTask env n pc))" p pc env]
    by simp
qed

lemma resumeTask_stays_settled:
  assumes "settled env p pc"
  shows "settled env p (snd (snd (resumeTask env n a pc)))"
proof (cases "p = n")
  case True
  then show ?thesis using assms resumeTask_settled[of env n pc a] by simp
next
  case False
  then show ?thesis
    using assms resumeTask_frame[OF False, of env a pc]
      settled_cong[of "snd (snd (resumeTask env n a pc))" p pc env]
    by simp
qed

text \<open>What every step keeps, the interleaved tasks keep.\<close>

lemma startAll_snd:
  "snd (snd (startAll env (n # names) pc)) =
     snd (snd (startAll env names (snd (snd (startTask env n pc)))))"
  by (simp split: prod.splits)

lemma startAll_preserves:
  assumes "\<And>n pc. P pc \<Longrightarrow> P (snd (snd (startTask env n pc)))" and "P pc"
  shows "P (snd (snd (startAll env names pc)))"
  using assms(2)
proof (induction names arbitrary: pc)
  case Nil
  then show ?case by simp
next
  case (Cons n names)
  have "P (snd (snd (startTask env n pc)))"
    using Cons.prems by (rule assms(1))
  then have "P (snd (snd (startAll env names (snd (snd (startTask env n pc))))))"
    by (rule Cons.IH)
  then show ?case unfolding startAll_snd .
qed

lemma resumeSteps_empty [simp]: "resumeSteps env k [] pc = ([], [], pc)"
  by (cases k) simp_all

lemma resumeSteps_step:
  assumes "waiting \<noteq> []" and "waiting ! pick env waiting = (n, a)"
    and "resumeTask env n a pc = (e, next, pc')"
  shows "snd (resumeSteps env (Suc k) waiting pc) =
           snd (resumeSteps env k
                  (take (pick env waiting) waiting @ drop (Suc (pick env waiting)) waiting @
                   (case next of None \<Rightarrow> [] | Some w \<Rightarrow> [(n, w)])) pc')"
  using assms by (simp add: Let_def split: prod.splits)

lemma resumeSteps_preserves:
  assumes "\<And>n a pc. P pc \<Longrightarrow> P (snd (snd (resumeTask env n a pc)))" and "P pc"
  shows "P (snd (snd (resumeSteps env k waiting pc)))"
  using assms(2)
proof (induction k arbitrary: waiting pc)
  case 0
  then show ?case by simp
next
  case (Suc k)
  show ?case
  proof (cases "waiting = []")
    case True
    then show ?thesis using Suc.prems by simp
  next
    case False
    obtain n a where na: "waiting ! pick env waiting = (n, a)"
      by (cases "waiting ! pick env waiting")
    obtain e "next" pc' where rt: "resumeTask env n a pc = (e, next, pc')"
      by (cases "resumeTask env n a pc") auto
    have "P pc'"
      using assms(1)[OF Suc.prems, of n a] rt by simp
    then show ?thesis
      unfolding resumeSteps_step[OF False na rt] by (rule Suc.IH)
  qed
qed

lemma assembleAll_snd:
  "snd (assembleAll env limit names pc) =
     snd (snd (resumeSteps env
        (case limit of None \<Rightarrow> workLeft (fst (snd (startAll env names pc))) | Some k \<Rightarrow> k)
        (fst (snd (startAll env names pc))) (snd (snd (startAll env names pc)))))"
proof -
  obtain es waiting pc' where st: "startAll env names pc = (es, waiting, pc')"
    by (cases "startAll env names pc") auto
  show ?thesis
    by (cases limit) (auto simp: assembleAll_def st split: prod.splits)
qed

lemma assembleAll_preserves:
  assumes "\<And>n pc. P pc \<Longrightarrow> P (snd (snd (startTask env n pc)))"
    and "\<And>n a pc. P pc \<Longrightarrow> P (snd (snd (resumeTask env n a pc)))"
    and "P pc"
  shows "P (snd (assembleAll env limit names pc))"
  unfolding assembleAll_snd
  apply (rule resumeSteps_preserves[where P = P])
   apply (erule assms(2))
  apply (rule startAll_preserves[where P = P])
   apply (erule assms(1))
  apply (rule assms(3))
  done

lemma startAll_settled:
  assumes "(isPending pc p \<and> \<not> isFetched pc p) \<or> settled env p pc"
    and "p \<in> set names"
  shows "settled env p (snd (snd (startAll env names pc)))"
  using assms
proof (induction names arbitrary: pc)
  case Nil
  then show ?case by simp
next
  case (Cons n names)
  let ?pc' = "snd (snd (startTask env n pc))"
  have keep: "(isPending ?pc' p \<and> \<not> isFetched ?pc' p) \<or> settled env p ?pc'"
    using Cons.prems(1) by (rule startTask_keeps)
  have "settled env p (snd (snd (startAll env names ?pc')))"
  proof (cases "p = n")
    case True
    then have "settled env p ?pc'"
      using startTask_settled[of pc n env] Cons.prems(1) by simp
    then show ?thesis
      by (rule startAll_preserves[where P = "settled env p", rotated])
         (rule startTask_stays_settled)
  next
    case False
    then have "p \<in> set names" using Cons.prems(2) by simp
    with keep show ?thesis by (rule Cons.IH)
  qed
  then show ?case unfolding startAll_snd .
qed

lemma assembleAll_settled:
  assumes "(isPending pc p \<and> \<not> isFetched pc p) \<or> settled env p pc"
    and "p \<in> set names"
  shows "settled env p (snd (assembleAll env limit names pc))"
  unfolding assembleAll_snd
  apply (rule resumeSteps_preserves[where P = "settled env p"])
   apply (erule resumeTask_stays_settled)
  apply (rule startAll_settled[OF assms])
  done

lemma assembleAll_untouched:
  assumes "\<not> isPending pc p" and "\<not> isFetched pc p"
  shows "\<not> isPending (snd (assembleAll env limit names pc)) p \<and>
         \<not> isFetched (snd (assembleAll env limit names pc)) p"
  apply (rule assembleAll_preserves[where P = "\<lambda>x. \<not> isPending x p \<and> \<not> isFetched x p"])
    apply (erule conjE, erule (1) startTask_untouched)
   apply (erule conjE, erule (1) resumeTask_untouched)
  apply (simp add: assms)
  done

lemma assembleAll_metadata:
  "pd_metadata (snd (assembleAll env limit names pc)) = pd_metadata pc"
  by (rule assembleAll_preserves[where P = "\<lambda>x. pd_metadata x = pd_metadata pc"])
     (simp_all add: startTask_metadata resumeTask_metadata)

text \<open>
  Every task comes to its end: when as many fetches have settled as \<open>workLeft\<close>
  counts, no task waits any more.
\<close>

lemma nextFetch_shorter:
  "nextFetch env urls = Some (res, rest) \<Longrightarrow> length rest < length urls"
  by (induction urls) (auto split: option.splits)

lemma workLeft_append [simp]: "workLeft (xs @ ys) = workLeft xs + workLeft ys"
  by (simp add: workLeft_def)

lemma workLeft_remove:
  assumes "i < length waiting" and "waiting ! i = (n, res, rest)"
  shows "workLeft waiting =
           workLeft (take i waiting @ drop (Suc i) waiting) + Suc (length rest)"
proof -
  have "waiting = take i waiting @ (n, res, rest) # drop (Suc i) waiting"
    using assms by (metis id_take_nth_drop)
  then have "workLeft waiting =
      workLeft (take i waiting @ (n, res, rest) # drop (Suc i) waiting)"
    by simp
  then show ?thesis by (simp add: workLeft_def)
qed

lemma pick_less: "waiting \<noteq> [] \<Longrightarrow> pick env waiting < length waiting"
  by (simp add: pick_def)

lemma resumeTask_next:
  assumes "resumeTask env n (res, rest) pc = (e, Some (res', rest'), pc')"
  shows "length rest' < length rest"
  using assms nextFetch_shorter[of env rest res' rest']
  by (auto simp: resumeTask_def split: sum.splits prod.splits option.splits)

lemma resumeSteps_completes:
  assumes "workLeft waiting \<le> k"
  shows "fst (snd (resumeSteps env k waiting pc)) = []"
  using assms
proof (induction k arbitrary: waiting pc)
  case 0
  then have "waiting = []"
    by (cases waiting) (auto simp: workLeft_def)
  then show ?case by simp
next
  case (Suc k)
  show ?case
  proof (cases "waiting = []")
    case True
    then show ?thesis by simp
  next
    case False
    let ?i = "pick env waiting"
    obtain n res rest where na: "waiting ! ?i = (n, res, rest)"
      by (cases "waiting ! ?i") auto
    obtain e "next" pc' where rt: "resumeTask env n (res, rest) pc = (e, next, pc')"
      by (cases "resumeTask env n (res, rest) pc") auto
    have wl: "workLeft waiting =
        workLeft (take ?i waiting @ drop (Suc ?i) waiting) + Suc (length rest)"
      using pick_less[OF False] na by (rule workLeft_remove)
    have nx: "workLeft (case next of None \<Rightarrow> [] | Some w \<Rightarrow> [(n, w)]) \<le> length rest"
    proof (cases "next")
      case None
      then show ?thesis by (simp add: workLeft_def)
    next
      case (Some w)
      obtain res' rest' where w: "w = (res', rest')" by (cases w)
      have "length rest' < length rest"
        using rt Some w resumeTask_next by blast
      then show ?thesis by (simp add: Some w workLeft_def)
    qed
    have "workLeft (take ?i waiting @ drop (Suc ?i) waiting @
            (case next of None \<Rightarrow> [] | Some w \<Rightarrow> [(n, w)])) \<le> k"
      using wl nx Suc.prems by simp
    then have "fst (snd (resumeSteps env k
        (take ?i waiting @ drop (Suc ?i) waiting @
         (case next of None \<Rightarrow> [] | Some w \<Rightarrow> [(n, w)])) pc')) = []"
      by (rule Suc.IH)
    then show ?thesis
      using resumeSteps_step[OF False na rt, of k] by simp
  qed
qed



lemma fetchUrls_first:
  assumes "fetchUrl env url = Some res"
  shows "fetchUrls env n (url # rest) pc =
           (case res of
              Inl e \<Rightarrow> (Some e, pc)
            | Inr body \<Rightarrow>
                (case movePendingToFetchedSources env n (setContent n body pc) of
                   (Some e, pc') \<Rightarrow> (Some e, pc')
                 | (None, pc') \<Rightarrow> fetchUrls env n rest pc'))"
  using assms by (auto simp: fetchUrl_def split: option.splits)


text \<open>
  The task on its own and the interleaved tasks are the same loop: the task from a
  settled fetch to its end is \<open>continueTask\<close>, and a contract with a single source is
  assembled as the task on its own does it.
\<close>

lemma fetchUrls_nextFetch:
  "fetchUrls env n urls pc =
     (case nextFetch env urls of None \<Rightarrow> (None, pc) | Some a \<Rightarrow> continueTask env n a pc)"
  by (induction urls) (auto simp: continueTask_def split: option.splits)

lemma pick_single [simp]: "pick env [x] = 0"
  by (simp add: pick_def)

lemma resumeSteps_single:
  assumes "Suc (length (snd a)) \<le> k"
  shows "resumeSteps env k [(n, a)] pc =
           (case fst (continueTask env n a pc) of None \<Rightarrow> [] | Some x \<Rightarrow> [x], [],
            snd (continueTask env n a pc))"
  using assms
proof (induction k arbitrary: a pc)
  case 0
  then show ?case by simp
next
  case (Suc k)
  obtain res rest where a: "a = (res, rest)" by (cases a)
  show ?case
  proof (cases res)
    case (Inl e)
    then show ?thesis
      by (simp add: a resumeTask_def continueTask_def Let_def)
  next
    case (Inr body)
    obtain e pc' where mv: "movePendingToFetchedSources env n (setContent n body pc) = (e, pc')"
      by (cases "movePendingToFetchedSources env n (setContent n body pc)")
    show ?thesis
    proof (cases e)
      case (Some err)
      then show ?thesis
        by (simp add: a Inr mv resumeTask_def continueTask_def Let_def)
    next
      case None
      show ?thesis
      proof (cases "nextFetch env rest")
        case nf: None
        then show ?thesis
          by (simp add: a Inr mv None resumeTask_def continueTask_def Let_def
              fetchUrls_nextFetch)
      next
        case nf: (Some a')
        obtain res' rest' where a': "a' = (res', rest')" by (cases a')
        have "length rest' < length rest"
          using nf a' nextFetch_shorter by blast
        then have "Suc (length (snd a')) \<le> k"
          using Suc.prems by (simp add: a a')
        then have "resumeSteps env k [(n, a')] pc' =
           (case fst (continueTask env n a' pc') of None \<Rightarrow> [] | Some x \<Rightarrow> [x], [],
            snd (continueTask env n a' pc'))"
          by (rule Suc.IH)
        then show ?thesis
          by (simp add: a Inr mv None nf resumeTask_def Let_def fetchUrls_nextFetch
              continueTask_def[of env n "(Inr body, rest)"])
      qed
    qed
  qed
qed

lemma assembleAll_single:
  "assembleAll env None [n] pc = assembleSource env n pc"
proof (cases "map_of (pd_pendingSources pc) n")
  case None
  then show ?thesis
    by (simp add: assembleAll_def startTask_def assembleSource_def workLeft_def)
next
  case (Some source)
  show ?thesis
  proof (cases "truthy (ms_content source)")
    case True
    then show ?thesis
      using Some
      by (cases "movePendingToFetchedSources env n pc";
          cases "fst (movePendingToFetchedSources env n pc)")
         (simp_all add: assembleAll_def startTask_def assembleSource_def workLeft_def)
  next
    case False
    let ?urls = "case ms_urls source of None \<Rightarrow> [] | Some urls \<Rightarrow> urls"
    show ?thesis
    proof (cases "nextFetch env ?urls")
      case None
      then show ?thesis
        using Some False
        by (simp add: assembleAll_def startTask_def assembleSource_def workLeft_def
            fetchUrls_nextFetch)
    next
      case (Some a)
      have "resumeSteps env (workLeft [(n, a)]) [(n, a)] pc =
           (case fst (continueTask env n a pc) of None \<Rightarrow> [] | Some x \<Rightarrow> [x], [],
            snd (continueTask env n a pc))"
        by (rule resumeSteps_single) (simp add: workLeft_def)
      then show ?thesis
        using \<open>map_of (pd_pendingSources pc) n = Some source\<close> False Some
        by (cases "continueTask env n a pc"; cases "fst (continueTask env n a pc)")
           (simp_all add: assembleAll_def startTask_def assembleSource_def fetchUrls_nextFetch)
    qed
  qed
qed

text \<open>
  The tasks do not disturb one another: a task reads and writes the entries of its own
  name only. So whatever the order in which the fetches settle, once every task has
  ended the entries of a source path are those that its task leaves when run on its own.
\<close>

lemma sameAt_refl [simp]: "sameAt p pc pc"
  by (simp add: sameAt_def)

lemma sameAt_trans: "sameAt p pc1 pc2 \<Longrightarrow> sameAt p pc2 pc3 \<Longrightarrow> sameAt p pc1 pc3"
  by (simp add: sameAt_def)

lemma sameAt_sym: "sameAt p pc1 pc2 \<Longrightarrow> sameAt p pc2 pc1"
  by (simp add: sameAt_def)

lemma move_local:
  assumes "sameAt n pc1 pc2"
  shows "fst (movePendingToFetchedSources env n pc1) = fst (movePendingToFetchedSources env n pc2) \<and>
         sameAt n (snd (movePendingToFetchedSources env n pc1))
                  (snd (movePendingToFetchedSources env n pc2))"
  using assms
  by (auto simp: sameAt_def movePendingToFetchedSources_def update_conv' delete_conv'
      split: option.splits)

lemma setContent_local:
  assumes "sameAt n pc1 pc2"
  shows "sameAt n (setContent n c pc1) (setContent n c pc2)"
  using assms by (simp add: sameAt_def setContent_pending)

lemma fetchUrls_local:
  assumes "sameAt n pc1 pc2"
  shows "fst (fetchUrls env n urls pc1) = fst (fetchUrls env n urls pc2) \<and>
         sameAt n (snd (fetchUrls env n urls pc1)) (snd (fetchUrls env n urls pc2))"
  using assms
proof (induction urls arbitrary: pc1 pc2)
  case Nil
  then show ?case by simp
next
  case (Cons url rest)
  show ?case
  proof (cases "fetchUrl env url")
    case None
    then show ?thesis
      using Cons.IH[OF Cons.prems] by (auto simp: fetchUrl_def split: option.splits)
  next
    case (Some res)
    show ?thesis
    proof (cases res)
      case (Inl e)
      then show ?thesis
        using Cons.prems by (simp add: fetchUrls_first[OF Some] del: fetchUrls.simps(2))
    next
      case (Inr body)
      obtain e1 q1 where m1: "movePendingToFetchedSources env n (setContent n body pc1) = (e1, q1)"
        by (cases "movePendingToFetchedSources env n (setContent n body pc1)")
      obtain e2 q2 where m2: "movePendingToFetchedSources env n (setContent n body pc2) = (e2, q2)"
        by (cases "movePendingToFetchedSources env n (setContent n body pc2)")
      have l: "e1 = e2 \<and> sameAt n q1 q2"
        using move_local[OF setContent_local[OF Cons.prems], of env body] m1 m2 by simp
      show ?thesis
      proof (cases e1)
        case None
        then show ?thesis
          using l Cons.IH[of q1 q2]
          by (simp add: fetchUrls_first[OF Some] Inr m1 m2 del: fetchUrls.simps(2))
      next
        case (Some err)
        then show ?thesis
          using l
          by (simp add: fetchUrls_first[OF \<open>fetchUrl env url = Some res\<close>] Inr m1 m2
              del: fetchUrls.simps(2))
      qed
    qed
  qed
qed

lemma continueTask_local:
  assumes "sameAt n pc1 pc2"
  shows "sameAt n (snd (continueTask env n a pc1)) (snd (continueTask env n a pc2))"
proof -
  obtain res rest where a: "a = (res, rest)" by (cases a)
  show ?thesis
  proof (cases res)
    case (Inl e)
    then show ?thesis using assms by (simp add: continueTask_def a)
  next
    case (Inr body)
    obtain e1 q1 where m1: "movePendingToFetchedSources env n (setContent n body pc1) = (e1, q1)"
      by (cases "movePendingToFetchedSources env n (setContent n body pc1)")
    obtain e2 q2 where m2: "movePendingToFetchedSources env n (setContent n body pc2) = (e2, q2)"
      by (cases "movePendingToFetchedSources env n (setContent n body pc2)")
    have l: "e2 = e1" "sameAt n q1 q2"
      using move_local[OF setContent_local[OF assms], of env body] m1 m2 by simp_all
    show ?thesis
      using l(2) fetchUrls_local[OF l(2), of env rest]
      by (cases e1) (simp_all add: continueTask_def a Inr m1 m2 l(1))
  qed
qed

lemma assembleSource_local:
  assumes "sameAt n pc1 pc2"
  shows "sameAt n (snd (assembleSource env n pc1)) (snd (assembleSource env n pc2))"
proof -
  have eq: "map_of (pd_pendingSources pc1) n = map_of (pd_pendingSources pc2) n"
    using assms by (simp add: sameAt_def)
  show ?thesis
    using assms move_local[OF assms, of env] fetchUrls_local[OF assms, of env]
    by (auto simp: assembleSource_def eq split: option.splits)
qed

lemma startTask_sameAt: "p \<noteq> n \<Longrightarrow> sameAt p (snd (snd (startTask env n pc))) pc"
  using startTask_frame[of p n env pc] by (simp add: sameAt_def)

lemma resumeTask_sameAt: "p \<noteq> n \<Longrightarrow> sameAt p (snd (snd (resumeTask env n a pc))) pc"
  using resumeTask_frame[of p n env a pc] by (simp add: sameAt_def)

lemma continueTask_resume:
  assumes "resumeTask env p a pc = (e, next, pc')"
  shows "snd (continueTask env p a pc) =
           (case next of None \<Rightarrow> pc' | Some a' \<Rightarrow> snd (continueTask env p a' pc'))"
proof -
  obtain res rest where a: "a = (res, rest)" by (cases a)
  show ?thesis
  proof (cases res)
    case (Inl err)
    then show ?thesis
      using assms by (auto simp: resumeTask_def continueTask_def a)
  next
    case (Inr body)
    obtain e1 q1 where m1: "movePendingToFetchedSources env p (setContent p body pc) = (e1, q1)"
      by (cases "movePendingToFetchedSources env p (setContent p body pc)")
    show ?thesis
    proof (cases e1)
      case (Some err)
      then show ?thesis
        using assms by (auto simp: resumeTask_def continueTask_def a Inr m1)
    next
      case None
      then have "next = nextFetch env rest" "pc' = q1"
        using assms by (auto simp: resumeTask_def a Inr m1)
      then show ?thesis
        by (simp add: continueTask_def[of env p "(Inr body, rest)"] a Inr m1 None
            fetchUrls_nextFetch split: option.splits)
    qed
  qed
qed

lemma assembleSource_start:
  assumes "startTask env p pc = (e, next, pc')"
  shows "snd (assembleSource env p pc) =
           (case next of None \<Rightarrow> pc' | Some a \<Rightarrow> snd (continueTask env p a pc'))"
  using assms
  by (auto simp: startTask_def assembleSource_def fetchUrls_nextFetch
      split: option.splits if_splits prod.splits)

lemma waiting_without:
  assumes "distinct (map fst waiting)" and "i < length waiting" and "waiting ! i = (n, a)"
  shows "distinct (map fst (take i waiting @ drop (Suc i) waiting @
                            (case next of None \<Rightarrow> [] | Some w \<Rightarrow> [(n, w)]))) \<and>
         map_of (take i waiting @ drop (Suc i) waiting @
                 (case next of None \<Rightarrow> [] | Some w \<Rightarrow> [(n, w)])) q =
           (if q = n then next else map_of waiting q) \<and>
         map_of waiting n = Some a"
proof -
  let ?xs = "take i waiting" and ?ys = "drop (Suc i) waiting"
  have w: "waiting = ?xs @ (n, a) # ?ys"
    using assms(2,3) by (metis id_take_nth_drop)
  have d: "distinct (map fst (?xs @ (n, a) # ?ys))"
    using assms(1) w by simp
  then have nx: "n \<notin> fst ` set ?xs" and ny: "n \<notin> fst ` set ?ys"
    and dd: "distinct (map fst ?xs)" "distinct (map fst ?ys)"
      "fst ` set ?xs \<inter> fst ` set ?ys = {}"
    by auto
  have mx: "map_of ?xs n = None" and my: "map_of ?ys n = None"
    using nx ny by (simp_all add: map_of_eq_None_iff)
  have 1: "distinct (map fst (?xs @ ?ys @ (case next of None \<Rightarrow> [] | Some w \<Rightarrow> [(n, w)])))"
    using dd nx ny by (cases "next") auto
  have 2: "map_of (?xs @ ?ys @ (case next of None \<Rightarrow> [] | Some w \<Rightarrow> [(n, w)])) q =
           (if q = n then next else map_of (?xs @ (n, a) # ?ys) q)"
    using mx my
    by (cases "next") (auto simp: map_add_def split: option.splits)
  have 3: "map_of (?xs @ (n, a) # ?ys) n = Some a"
    using mx by (simp add: map_add_def split: option.splits)
  show ?thesis
    using 1 2 3 w by simp
qed

lemma resumeSteps_left:
  assumes "distinct (map fst waiting)"
  shows "sameAt p (taskLeft env p (fst (snd (resumeSteps env k waiting pc)))
                      (snd (snd (resumeSteps env k waiting pc))))
                  (taskLeft env p waiting pc)"
  using assms
proof (induction k arbitrary: waiting pc)
  case 0
  then show ?case by simp
next
  case (Suc k)
  show ?case
  proof (cases "waiting = []")
    case True
    then show ?thesis by simp
  next
    case False
    let ?i = "pick env waiting"
    obtain n a where na: "waiting ! ?i = (n, a)" by (cases "waiting ! ?i")
    obtain e "next" pc' where rt: "resumeTask env n a pc = (e, next, pc')"
      by (cases "resumeTask env n a pc") auto
    let ?w' = "take ?i waiting @ drop (Suc ?i) waiting @
               (case next of None \<Rightarrow> [] | Some w \<Rightarrow> [(n, w)])"
    have ww: "distinct (map fst ?w')"
        "map_of ?w' p = (if p = n then next else map_of waiting p)"
        "map_of waiting n = Some a"
      using waiting_without[OF Suc.prems pick_less[OF False] na, of "next" p] by simp_all
    have ih: "sameAt p (taskLeft env p (fst (snd (resumeSteps env k ?w' pc')))
                      (snd (snd (resumeSteps env k ?w' pc'))))
                  (taskLeft env p ?w' pc')"
      using ww(1) by (rule Suc.IH)
    have step: "sameAt p (taskLeft env p ?w' pc') (taskLeft env p waiting pc)"
    proof (cases "p = n")
      case True
      then show ?thesis
        using ww(2,3) continueTask_resume[OF rt] by (simp add: taskLeft_def)
    next
      case neq: False
      have fr: "sameAt p pc' pc"
        using resumeTask_sameAt[OF neq, of env a pc] rt by simp
      show ?thesis
        using neq ww(2) fr continueTask_local[OF fr, of env]
        by (simp add: taskLeft_def split: option.splits)
    qed
    show ?thesis
      unfolding resumeSteps_step[OF False na rt]
      using ih step by (rule sameAt_trans)
  qed
qed

lemma startAll_left:
  assumes "distinct names"
  shows "distinct (map fst (fst (snd (startAll env names pc)))) \<and>
         fst ` set (fst (snd (startAll env names pc))) \<subseteq> set names \<and>
         (p \<in> set names \<longrightarrow>
            sameAt p (taskLeft env p (fst (snd (startAll env names pc)))
                        (snd (snd (startAll env names pc))))
                     (snd (assembleSource env p pc))) \<and>
         (p \<notin> set names \<longrightarrow> sameAt p (snd (snd (startAll env names pc))) pc)"
  using assms
proof (induction names arbitrary: pc)
  case Nil
  then show ?case by simp
next
  case (Cons n names)
  obtain e "next" pc1 where st: "startTask env n pc = (e, next, pc1)"
    by (cases "startTask env n pc") auto
  obtain es waiting pc2 where sa: "startAll env names pc1 = (es, waiting, pc2)"
    by (cases "startAll env names pc1") auto
  have d: "distinct names" and nn: "n \<notin> set names"
    using Cons.prems by simp_all
  have ih: "distinct (map fst waiting)" "fst ` set waiting \<subseteq> set names"
      "p \<in> set names \<longrightarrow> sameAt p (taskLeft env p waiting pc2) (snd (assembleSource env p pc1))"
      "p \<notin> set names \<longrightarrow> sameAt p pc2 pc1"
    using Cons.IH[OF d, of pc1] sa by simp_all
  let ?w = "case next of None \<Rightarrow> waiting | Some w \<Rightarrow> (n, w) # waiting"
  have res: "startAll env (n # names) pc = (case e of None \<Rightarrow> es | Some x \<Rightarrow> x # es, ?w, pc2)"
    by (simp add: st sa)
  have nw: "n \<notin> fst ` set waiting"
    using ih(2) nn by auto
  have 1: "distinct (map fst ?w)"
    using ih(1) nw by (cases "next") auto
  have 2: "fst ` set ?w \<subseteq> set (n # names)"
    using ih(2) by (cases "next") auto
  have 3: "sameAt p (taskLeft env p ?w pc2) (snd (assembleSource env p pc))"
    if pin: "p \<in> set (n # names)"
  proof (cases "p = n")
    case True
    then have fr: "sameAt p pc2 pc1"
      using ih(4) nn by simp
    have mw: "map_of ?w p = next"
      using True nw by (cases "next") (simp_all add: map_of_eq_None_iff)
    have "sameAt p (taskLeft env p ?w pc2)
            (case next of None \<Rightarrow> pc1 | Some a \<Rightarrow> snd (continueTask env p a pc1))"
      using fr continueTask_local[OF fr, of env]
      by (simp add: taskLeft_def mw split: option.splits)
    moreover have "snd (assembleSource env p pc) =
            (case next of None \<Rightarrow> pc1 | Some a \<Rightarrow> snd (continueTask env p a pc1))"
      using st unfolding True by (rule assembleSource_start)
    ultimately show ?thesis by simp
  next
    case False
    then have pn: "p \<in> set names" using pin by simp
    have mw: "map_of ?w p = map_of waiting p"
      using False by (cases "next") simp_all
    have fr: "sameAt p pc1 pc"
      using startTask_sameAt[OF False, of env pc] st by simp
    have "sameAt p (taskLeft env p ?w pc2) (snd (assembleSource env p pc1))"
      using ih(3) pn by (simp add: taskLeft_def mw)
    then show ?thesis
      using assembleSource_local[OF fr, of env] by (rule sameAt_trans)
  qed
  have 4: "sameAt p pc2 pc" if "p \<notin> set (n # names)"
  proof -
    have "sameAt p pc1 pc"
      using startTask_sameAt[of p n env pc] st that by simp
    moreover have "sameAt p pc2 pc1"
      using ih(4) that by simp
    ultimately show ?thesis
      using sameAt_trans by blast
  qed
  show ?case
    unfolding res using 1 2 3 4 by simp
qed

lemma assembleAll_entry:
  assumes "distinct names" and "p \<in> set names"
  shows "sameAt p (snd (assembleAll env None names pc)) (snd (assembleSource env p pc))"
proof -
  let ?w = "fst (snd (startAll env names pc))"
  let ?pc1 = "snd (snd (startAll env names pc))"
  have fin: "fst (snd (resumeSteps env (workLeft ?w) ?w ?pc1)) = []"
    by (rule resumeSteps_completes) simp
  have "sameAt p (taskLeft env p (fst (snd (resumeSteps env (workLeft ?w) ?w ?pc1)))
                    (snd (snd (resumeSteps env (workLeft ?w) ?w ?pc1))))
                 (taskLeft env p ?w ?pc1)"
    using startAll_left[OF assms(1), of env pc p] by (intro resumeSteps_left) simp
  then have "sameAt p (snd (assembleAll env None names pc)) (taskLeft env p ?w ?pc1)"
    by (simp add: fin taskLeft_def assembleAll_snd)
  moreover have "sameAt p (taskLeft env p ?w ?pc1) (snd (assembleSource env p pc))"
    using startAll_left[OF assms(1), of env pc p] assms(2) by simp
  ultimately show ?thesis
    by (rule sameAt_trans)
qed


lemmas pending_eval =
  assembleSource_def movePendingToFetchedSources_def setContent_def fetchUrl_def
  examplePenv_def validSource_def orEmpty_def



text \<open>
  The loop has no \<^verbatim>\<open>break\<close>: after a successful move, a further URL that can be fetched
  is fetched, and the second move throws because the entry is no longer pending.
\<close>

lemma assembleSource_second_fetchable_url_throws:
  "assembleSource examplePenv ''A.sol'' fetchableTwice =
     (Some (Error ''Source A.sol not found''),
      fetchableTwice
        \<lparr>pd_fetchedSources :=
           [(''A.sol'', \<lparr>ms_keccak256 = ''keccak256 of contract A {}'',
                         ms_urls = Some [''ipfs://QmA'', ''ipfs://QmA''],
                         ms_content = Some ''contract A {}''\<rparr>)],
         pd_pendingSources := []\<rparr>)"
  by (simp add: pending_eval fetchableTwice_def)

lemma settled_exactly_one:
  assumes "settled env p pc"
  shows "(isPending pc p \<or> isFetched pc p) \<and> \<not> (isPending pc p \<and> isFetched pc p) \<and>
         (isFetched pc p \<longleftrightarrow>
            (\<exists>source. sourceEntry pc p = Some source \<and> validSource env source))"
  using assms
  by (auto simp: settled_def isPending_def isFetched_def sourceEntry_def split: option.splits)

lemma assembled_cases:
  "(sourcePaths (assembled env limit h a c) = [] \<and>
    pd_pendingSources (assembled env limit h a c) = [] \<and>
    pd_fetchedSources (assembled env limit h a c) = []) \<or>
   (\<exists>md sources. md_sources md = Some sources \<and>
      assembled env limit h a c =
        snd (assembleAll env limit (map fst sources)
               ((newPendingContract h a c)\<lparr>pd_metadata := Some md, pd_pendingSources := sources\<rparr>)))"
  by (auto simp: assembled_def assembleUntil_def newPendingContract_def sourcePaths_def
      split: option.splits sum.splits)

text \<open>
  C9, as the code has it. \<open>movePendingToFetchedSources\<close> moves an entry exactly when the
  entry is pending, its content is set and the keccak256 of the content is the declared
  one; otherwise it throws and changes nothing, and after a move the path is fetched and
  no longer pending. On a new PendingContract on which \<open>assemble\<close> has been called, at
  every moment from the start of the tasks on, whatever the order in which the fetches
  settle and whether \<open>assemble\<close> has thrown or not, the paths in \<open>pendingSources\<close> or
  \<open>fetchedSources\<close> are the source paths of the metadata, no path is in both, and a
  source path is in \<open>fetchedSources\<close> exactly when the content of its entry is set and
  has the declared keccak256.
\<close>

theorem pendingContract_sources:
  "(fst (movePendingToFetchedSources env path pc) = None \<longleftrightarrow>
      (\<exists>source. map_of (pd_pendingSources pc) path = Some source \<and> validSource env source)) \<and>
   (fst (movePendingToFetchedSources env path pc) \<noteq> None \<longrightarrow>
      snd (movePendingToFetchedSources env path pc) = pc) \<and>
   (fst (movePendingToFetchedSources env path pc) = None \<longrightarrow>
      \<not> isPending (snd (movePendingToFetchedSources env path pc)) path \<and>
      isFetched (snd (movePendingToFetchedSources env path pc)) path) \<and>
   (path \<in> set (sourcePaths (assembled env limit metadataHash address chainId)) \<longleftrightarrow>
      isPending (assembled env limit metadataHash address chainId) path \<or>
      isFetched (assembled env limit metadataHash address chainId) path) \<and>
   \<not> (isPending (assembled env limit metadataHash address chainId) path \<and>
      isFetched (assembled env limit metadataHash address chainId) path) \<and>
   (path \<in> set (sourcePaths (assembled env limit metadataHash address chainId)) \<longrightarrow>
      (isFetched (assembled env limit metadataHash address chainId) path \<longleftrightarrow>
         (\<exists>source. sourceEntry (assembled env limit metadataHash address chainId) path =
                     Some source \<and>
                   validSource env source)))"
proof -
  let ?pc' = "assembled env limit metadataHash address chainId"
  have mv1: "fst (movePendingToFetchedSources env path pc) = None \<longleftrightarrow>
      (\<exists>source. map_of (pd_pendingSources pc) path = Some source \<and> validSource env source)"
    by (rule move_iff)
  have mv2: "fst (movePendingToFetchedSources env path pc) \<noteq> None \<longrightarrow>
      snd (movePendingToFetchedSources env path pc) = pc"
    using move_fail by blast
  have mv3: "fst (movePendingToFetchedSources env path pc) = None \<longrightarrow>
      \<not> isPending (snd (movePendingToFetchedSources env path pc)) path \<and>
      isFetched (snd (movePendingToFetchedSources env path pc)) path"
    using move_iff[of env path pc]
    by (auto simp: move_ok isPending_def isFetched_def update_conv' delete_conv')
  have asm: "(path \<in> set (sourcePaths ?pc') \<longleftrightarrow> isPending ?pc' path \<or> isFetched ?pc' path) \<and>
      \<not> (isPending ?pc' path \<and> isFetched ?pc' path) \<and>
      (path \<in> set (sourcePaths ?pc') \<longrightarrow>
        (isFetched ?pc' path \<longleftrightarrow>
           (\<exists>source. sourceEntry ?pc' path = Some source \<and> validSource env source)))"
    using assembled_cases[of env limit metadataHash address chainId]
  proof (elim disjE exE conjE)
    assume "sourcePaths ?pc' = []" "pd_pendingSources ?pc' = []" "pd_fetchedSources ?pc' = []"
    then show ?thesis by (simp add: isPending_def isFetched_def)
  next
    fix md sources
    let ?pc2 = "(newPendingContract metadataHash address chainId)
                  \<lparr>pd_metadata := Some md, pd_pendingSources := sources\<rparr>"
    assume md: "md_sources md = Some sources"
      and eq: "?pc' = snd (assembleAll env limit (map fst sources) ?pc2)"
    have paths: "sourcePaths ?pc' = map fst sources"
      by (simp add: eq sourcePaths_def assembleAll_metadata md)
    show ?thesis
    proof (cases "path \<in> set (map fst sources)")
      case True
      then have "isPending ?pc2 path \<and> \<not> isFetched ?pc2 path"
        by (simp add: isPending_def isFetched_def newPendingContract_def map_of_eq_None_iff)
      then have "settled env path ?pc'"
        using assembleAll_settled[of ?pc2 path env "map fst sources" limit] True eq by simp
      then have ex: "(isPending ?pc' path \<or> isFetched ?pc' path) \<and>
          \<not> (isPending ?pc' path \<and> isFetched ?pc' path) \<and>
          (isFetched ?pc' path \<longleftrightarrow>
             (\<exists>source. sourceEntry ?pc' path = Some source \<and> validSource env source))"
        by (rule settled_exactly_one)
      have "path \<in> set (sourcePaths ?pc')" using True paths by simp
      then show ?thesis using ex by blast
    next
      case False
      then have "\<not> isPending ?pc2 path" "\<not> isFetched ?pc2 path"
        by (simp_all add: isPending_def isFetched_def newPendingContract_def map_of_eq_None_iff)
      then have "\<not> isPending ?pc' path \<and> \<not> isFetched ?pc' path"
        using assembleAll_untouched[of ?pc2 path env limit "map fst sources"] eq by simp
      moreover have "path \<notin> set (sourcePaths ?pc')" using False paths by simp
      ultimately show ?thesis by blast
    qed
  qed
  show ?thesis using mv1 mv2 mv3 asm by blast
qed

lemmas assemble_eval =
  assembled_def assemble_def assembleUntil_def assembleAll_def startTask_def resumeTask_def
  pick_def workLeft_def newPendingContract_def Let_def

lemma assembled_example:
  "assembled examplePenv None \<lparr>fh_hash = ''QmMeta'', fh_origin = ''ipfs''\<rparr> ''0xA'' 5 =
     \<lparr>pd_metadataHash = \<lparr>fh_hash = ''QmMeta'', fh_origin = ''ipfs''\<rparr>, pd_address = ''0xA'',
      pd_chainId = 5,
      pd_metadata = Some \<lparr>md_sources = Some
                [(''A.sol'', \<lparr>ms_keccak256 = ''keccak256 of contract A {}'',
                              ms_urls = Some [''bzz-raw://1234'', ''ipfs://QmA''],
                              ms_content = None\<rparr>),
                 (''L.sol'', \<lparr>ms_keccak256 = ''keccak256 of library L {}'',
                              ms_urls = None, ms_content = Some ''library L {}''\<rparr>)]\<rparr>,
      pd_pendingSources = [],
      pd_fetchedSources =
        [(''L.sol'', \<lparr>ms_keccak256 = ''keccak256 of library L {}'',
                      ms_urls = None, ms_content = Some ''library L {}''\<rparr>),
         (''A.sol'', \<lparr>ms_keccak256 = ''keccak256 of contract A {}'',
                      ms_urls = Some [''bzz-raw://1234'', ''ipfs://QmA''],
                      ms_content = Some ''contract A {}''\<rparr>)]\<rparr>"
  by (simp add: assemble_eval pending_eval)

text \<open>
  An assembled contract with one fetched and one inline source, the inline source moved
  first, and a refused move.
\<close>

theorem pendingContract_sources_witness:
  "''A.sol'' \<in> set (sourcePaths
      (assembled examplePenv None \<lparr>fh_hash = ''QmMeta'', fh_origin = ''ipfs''\<rparr> ''0xA'' 5)) \<and>
   isFetched (assembled examplePenv None \<lparr>fh_hash = ''QmMeta'', fh_origin = ''ipfs''\<rparr> ''0xA'' 5)
     ''A.sol'' \<and>
   \<not> isPending (assembled examplePenv None \<lparr>fh_hash = ''QmMeta'', fh_origin = ''ipfs''\<rparr> ''0xA'' 5)
     ''A.sol'' \<and>
   (\<exists>source. sourceEntry
        (assembled examplePenv None \<lparr>fh_hash = ''QmMeta'', fh_origin = ''ipfs''\<rparr> ''0xA'' 5)
        ''A.sol'' = Some source \<and> validSource examplePenv source) \<and>
   fst (movePendingToFetchedSources examplePenv ''A.sol'' tamperedFirst) \<noteq> None \<and>
   snd (movePendingToFetchedSources examplePenv ''A.sol'' tamperedFirst) = tamperedFirst"
proof -
  have p: "''A.sol'' \<in> set (sourcePaths
      (assembled examplePenv None \<lparr>fh_hash = ''QmMeta'', fh_origin = ''ipfs''\<rparr> ''0xA'' 5))"
    by (simp add: assembled_example sourcePaths_def)
  have f: "isFetched (assembled examplePenv None \<lparr>fh_hash = ''QmMeta'', fh_origin = ''ipfs''\<rparr>
      ''0xA'' 5) ''A.sol''"
    by (simp add: assembled_example isFetched_def)
  have m: "fst (movePendingToFetchedSources examplePenv ''A.sol'' tamperedFirst) \<noteq> None"
    by (simp add: movePendingToFetchedSources_def tamperedFirst_def)
  show ?thesis
    using pendingContract_sources
            [of examplePenv "''A.sol''" tamperedFirst None
                "\<lparr>fh_hash = ''QmMeta'', fh_origin = ''ipfs''\<rparr>" "''0xA''" 5]
      p f m
    by blast
qed

text \<open>
  C9, against the wording of the specification: \<open>assemble\<close> called a second time on the
  contract assembled above, when the source \<^verbatim>\<open>QmA\<close> can no longer be fetched. The second
  call puts every source of the metadata back into \<open>pendingSources\<close> and leaves
  \<open>fetchedSources\<close> as it is; the fetch of \<^verbatim>\<open>A.sol\<close> fails, and \<^verbatim>\<open>A.sol\<close> is in both maps.
\<close>

theorem second_assemble_leaves_source_in_both:
  "fst (assemble unavailablePenv
          (assembled examplePenv None \<lparr>fh_hash = ''QmMeta'', fh_origin = ''ipfs''\<rparr> ''0xA'' 5)) =
     Some (Error ''fetch-unavailable'') \<and>
   isPending (snd (assemble unavailablePenv
                (assembled examplePenv None \<lparr>fh_hash = ''QmMeta'', fh_origin = ''ipfs''\<rparr>
                   ''0xA'' 5))) ''A.sol'' \<and>
   isFetched (snd (assemble unavailablePenv
                (assembled examplePenv None \<lparr>fh_hash = ''QmMeta'', fh_origin = ''ipfs''\<rparr>
                   ''0xA'' 5))) ''A.sol''"
  by (simp add: assembled_example)
     (simp add: assemble_eval pending_eval unavailablePenv_def isPending_def isFetched_def)

text \<open>
  The message of a failed metadata fetch names the address, the hash and the origin.
\<close>

lemma assemble_metadata_unavailable:
  "assemble examplePenv
     (newPendingContract \<lparr>fh_hash = ''QmGone'', fh_origin = ''ipfs''\<rparr> ''0xA'' 5) =
     (Some (Error ''Can't fetch metadata address=0xA hash=QmGone origin=ipfs: Error: fetch-unavailable''),
      newPendingContract \<lparr>fh_hash = ''QmGone'', fh_origin = ''ipfs''\<rparr> ''0xA'' 5)"
  by (simp add: assemble_eval examplePenv_def)

section \<open>The ids of the session\<close>

text \<open>
  Two values of the SHA-1 model, computed by rewriting: the hash of the base64 text of
  \<^verbatim>\<open>contract A {}\<close> and the hash of the same text between double quotes.
\<close>

lemma replicate_numeral_unfold:
  "replicate (numeral k) x = x # replicate (pred_numeral k) x"
  by (simp add: numeral_eq_Suc)

lemma expand_numeral:
  "expand (numeral k) win =
     hd win # expand (pred_numeral k)
       (tl win @ [rotl32 1 (win ! 13 XOR win ! 8 XOR win ! 2 XOR win ! 0)])"
  by (simp add: numeral_eq_Suc)

lemmas sha1_eval =
  sha1_hex_def sha1_pad_def replicate_numeral_unfold expand_numeral sha1_block_def
  rotl32_def sha1_f_def sha1_k_def hex32_def hex_digit_def

lemma sha1_base64: "sha1_hex ''Y29udHJhY3QgQSB7fQ=='' = ''7efd101b06b95ecbb358758a45e77b8e50c0a899''"
  by (simp add: sha1_eval)

lemma sha1_quoted_base64:
  "sha1_hex (JSON_stringify ''Y29udHJhY3QgQSB7fQ=='') = ''0cbad0b34e0580bf946c46245febe2649906d688''"
  by (simp add: JSON_stringify_def json_escape_def sha1_eval)

lemma stagedSession_keyed: "keyedFiles (inputFilesOf stagedSession)"
  by (simp add: keyedFiles_def inputFilesOf_def stagedSession_def sha1_quoted_base64)

lemma saveFiles_loop_keyed:
  "keyedFiles inputFiles \<Longrightarrow> keyedFiles (fst (saveFiles_loop pathContents inputFiles n))"
  by (induction pathContents arbitrary: inputFiles n)
     (auto simp: keyedFiles_def generateId_def Let_def)

lemma saveFiles_loop_keys:
  "fst ` set inputFiles \<union> (\<lambda>pc. generateId (pc_content pc)) ` set pathContents
     \<subseteq> fst ` set (fst (saveFiles_loop pathContents inputFiles n))"
proof (induction pathContents arbitrary: inputFiles n)
  case Nil
  then show ?case by simp
next
  case (Cons pc rest)
  show ?case
  proof (cases "generateId (pc_content pc) \<in> fst ` set inputFiles")
    case True
    then show ?thesis using Cons.IH[of inputFiles n] by (auto simp: Let_def)
  next
    case False
    then show ?thesis
      using Cons.IH[of "inputFiles @ [(generateId (pc_content pc), pc)]" "n + 1"]
      by (auto simp: Let_def)
  qed
qed

lemma update_entries:
  "(k', v') \<in> set (AList.update k v al) \<Longrightarrow> (k', v') = (k, v) \<or> (k', v') \<in> set al"
  by (induction al) (auto split: if_splits)

lemma keyedContracts_update:
  assumes "keyedContracts ws"
    and "k = sha1_hex (JSON_stringify (JSON_stringify (cc_metadataRaw (cw_contract w))))"
  shows "keyedContracts (AList.update k w ws)"
  using assms update_entries[of _ _ k w ws]
  by (fastforce simp: keyedContracts_def list_all_iff)

lemma newPendingContracts_fold_keyed:
  "keyedContracts acc \<Longrightarrow>
   keyedContracts (fold (\<lambda>contract acc.
      AList.update (generateId (JSON_stringify (cc_metadataRaw contract)))
        \<lparr>cw_contract = contract, cw_address = None, cw_chainId = None,
         cw_creatorTxHash = None, cw_status = None, cw_statusMessage = None,
         cw_storageTimestamp = None\<rparr> acc) contracts acc)"
proof (induction contracts arbitrary: acc)
  case Nil
  then show ?case by simp
next
  case (Cons c contracts)
  have "keyedContracts (AList.update (generateId (JSON_stringify (cc_metadataRaw c)))
        \<lparr>cw_contract = c, cw_address = None, cw_chainId = None,
         cw_creatorTxHash = None, cw_status = None, cw_statusMessage = None,
         cw_storageTimestamp = None\<rparr> acc)"
    using Cons.prems by (rule keyedContracts_update) (simp add: generateId_def)
  then show ?case
    using Cons.IH by simp
qed

lemma newPendingContracts_keyed: "keyedContracts (newPendingContracts contracts)"
  unfolding newPendingContracts_def
  by (rule newPendingContracts_fold_keyed) (simp add: keyedContracts_def)

lemma mergeWrapper_fold_metadataRaw:
  fixes c :: checkedContract
  shows "cc_metadataRaw (fold (\<lambda>(path, body) c.
                         c\<lparr>cc_solidity := AList.update path body (cc_solidity c),
                           cc_missing := AList.delete path (cc_missing c)\<rparr>) xs c) =
         cc_metadataRaw c"
  by (induction xs arbitrary: c) (auto split: prod.splits)

lemma mergeWrapper_metadataRaw:
  "cc_metadataRaw (cw_contract (mergeWrapper old new)) = cc_metadataRaw (cw_contract old)"
  by (simp add: mergeWrapper_def Let_def mergeWrapper_fold_metadataRaw)

lemma mergeContracts_keyed:
  assumes "keyedContracts new" and "keyedContracts ws"
  shows "keyedContracts (mergeContracts new ws)"
  using assms
proof (induction new arbitrary: ws)
  case Nil
  then show ?case by simp
next
  case (Cons x new)
  obtain newId w where x: "x = (newId, w)" by (cases x)
  have k: "newId = sha1_hex (JSON_stringify (JSON_stringify (cc_metadataRaw (cw_contract w))))"
    and rest: "keyedContracts new"
    using Cons.prems(1) by (auto simp: x keyedContracts_def)
  show ?case
  proof (cases "map_of ws newId")
    case None
    then show ?thesis
      using Cons.IH[OF rest keyedContracts_update[OF Cons.prems(2) k]] by (simp add: x)
  next
    case (Some old)
    then have "(newId, old) \<in> set ws" by (rule map_of_SomeD)
    then have "newId = sha1_hex (JSON_stringify (JSON_stringify (cc_metadataRaw (cw_contract old))))"
      using Cons.prems(2) by (auto simp: keyedContracts_def list_all_iff)
    then have "keyedContracts (AList.update newId (mergeWrapper old w) ws)"
      using Cons.prems(2) by (intro keyedContracts_update) (simp_all add: mergeWrapper_metadataRaw)
    then show ?thesis
      using Cons.IH[OF rest] Some by (simp add: x)
  qed
qed

text \<open>
  C7, as the code has it. The key of a file in \<open>inputFiles\<close> is the hexadecimal SHA-1 hash of
  \<^verbatim>\<open>JSON.stringify(content)\<close>, the content between double quotes with its JSON escapes:
  every file of an accepted upload is present under that key, and every entry of
  \<open>inputFiles\<close> stays under the key of its own content. The key of a staged contract
  is the hexadecimal SHA-1 hash of \<^verbatim>\<open>JSON.stringify(JSON.stringify(metadataRaw))\<close>, and
  \<open>checkContractsInSession\<close> keeps every contract under the key of its own metadata.
\<close>

theorem session_ids:
  "(inputSize pathContents session \<le> MAX_SESSION_SIZE \<longrightarrow>
      (\<forall>pc \<in> set pathContents.
         sha1_hex (JSON_stringify (pc_content pc))
           \<in> fst ` set (inputFilesOf (snd (saveFiles pathContents session))))) \<and>
   (keyedFiles (inputFilesOf session) \<longrightarrow>
      keyedFiles (inputFilesOf (snd (saveFiles pathContents session)))) \<and>
   (keyedContracts (wrappersOf session) \<longrightarrow>
      keyedContracts (wrappersOf (checkContractsInSession checkFilesResult session)))"
proof (intro conjI impI ballI)
  fix pc
  assume "inputSize pathContents session \<le> MAX_SESSION_SIZE" and "pc \<in> set pathContents"
  then show "sha1_hex (JSON_stringify (pc_content pc))
           \<in> fst ` set (inputFilesOf (snd (saveFiles pathContents session)))"
    using saveFiles_loop_keys[of "inputFilesOf session" pathContents 0]
    by (auto simp: saveFiles_accepted generateId_def)
next
  assume "keyedFiles (inputFilesOf session)"
  then show "keyedFiles (inputFilesOf (snd (saveFiles pathContents session)))"
    using saveFiles_loop_keyed[of "inputFilesOf session" pathContents 0]
    by (cases "inputSize pathContents session \<le> MAX_SESSION_SIZE")
       (simp_all add: saveFiles_accepted saveFiles_rejected)
next
  assume "keyedContracts (wrappersOf session)"
  then show "keyedContracts (wrappersOf (checkContractsInSession checkFilesResult session))"
    using mergeContracts_keyed[OF newPendingContracts_keyed, of "wrappersOf session"]
    by (auto simp: checkContractsInSession_def updateUnused_def wrappersOf_def
        split: sum.splits option.splits)
qed

text \<open>One file and one contract added to an empty session.\<close>

theorem session_ids_witness:
  "sha1_hex (JSON_stringify ''Y29udHJhY3QgQSB7fQ=='')
     \<in> fst ` set (inputFilesOf (snd (saveFiles
           [\<lparr>pc_path = ''A.sol'', pc_content = ''Y29udHJhY3QgQSB7fQ==''\<rparr>] emptySession))) \<and>
   keyedFiles (inputFilesOf (snd (saveFiles
           [\<lparr>pc_path = ''A.sol'', pc_content = ''Y29udHJhY3QgQSB7fQ==''\<rparr>] emptySession))) \<and>
   keyedContracts (wrappersOf (checkContractsInSession (Inr ([exampleContract], []))
           emptySession))"
  using session_ids
          [of "[\<lparr>pc_path = ''A.sol'', pc_content = ''Y29udHJhY3QgQSB7fQ==''\<rparr>]" emptySession
              "Inr ([exampleContract], [])"]
  by (simp add: inputSize_def MAX_SESSION_SIZE_def inputFilesOf_def emptySession_def
      keyedFiles_def keyedContracts_def wrappersOf_def)

text \<open>
  C7, against the wording of the specification: the key under which a file is stored is not the SHA-1 hash of its
  content, since \<open>generateId\<close> hashes the JSON text of the content.
\<close>

theorem session_id_is_not_sha1_of_content:
  "map fst (inputFilesOf (snd (saveFiles
      [\<lparr>pc_path = ''A.sol'', pc_content = ''Y29udHJhY3QgQSB7fQ==''\<rparr>] emptySession))) =
     [''0cbad0b34e0580bf946c46245febe2649906d688''] \<and>
   sha1_hex ''Y29udHJhY3QgQSB7fQ=='' = ''7efd101b06b95ecbb358758a45e77b8e50c0a899''"
  by (simp add: saveFiles_def inputSize_def MAX_SESSION_SIZE_def inputFilesOf_def
      emptySession_def generateId_def sha1_quoted_base64 sha1_base64)

end
